theory Spec2Isabelle
  imports Main "HOL-Library.Word"
begin

unbundle bit_operations_syntax

section \<open>GPU page-table entries (i915\_gem\_gtt.c)\<close>

subsection \<open>Entry types, cache levels and the header's bit macros\<close>

text \<open>
  \<open>gen6_gtt_pte_t\<close> is written with \<open>iowrite32\<close> and read with \<open>readl\<close>;
  \<open>gen8_gtt_pte_t\<close> is written with \<open>writeq\<close>. Bus addresses are taken as 64 bits wide.
\<close>

type_synonym dma_addr_t = "64 word"
type_synonym gen6_gtt_pte_t = "32 word"
type_synonym gen8_gtt_pte_t = "64 word"

text \<open>
  \<open>enum i915_cache_level\<close>: the four enumerators the source names, and
  \<open>I915_CACHE_INVALID k\<close> for any other integer stored in a variable of the enum type.
\<close>

datatype i915_cache_level =
    I915_CACHE_NONE
  | I915_CACHE_LLC
  | I915_CACHE_L3_LLC
  | I915_CACHE_WT
  | I915_CACHE_INVALID int

text \<open>
  The bit macros come from headers (\<open>i915_gem_gtt.h\<close>, \<open>pgtable_types.h\<close>) that the
  encoders only name. The encoders take them as a parameter \<open>h\<close>; the fields carry the
  macros' names (\<open>PAGE_PRESENT\<close> is \<open>_PAGE_PRESENT\<close>, \<open>PAGE_RW\<close> is \<open>_PAGE_RW\<close>).
\<close>

record pte_bits =
  PAGE_PRESENT :: gen8_gtt_pte_t
  PAGE_RW :: gen8_gtt_pte_t
  PPAT_UNCACHED_INDEX :: gen8_gtt_pte_t
  PPAT_DISPLAY_ELLC_INDEX :: gen8_gtt_pte_t
  PPAT_CACHED_INDEX :: gen8_gtt_pte_t
  GEN6_PTE_VALID :: gen6_gtt_pte_t
  GEN6_PTE_UNCACHED :: gen6_gtt_pte_t
  GEN6_PTE_CACHE_LLC :: gen6_gtt_pte_t
  GEN7_PTE_CACHE_L3_LLC :: gen6_gtt_pte_t
  BYT_PTE_WRITEABLE :: gen6_gtt_pte_t
  BYT_PTE_SNOOPED_BY_CPU_CACHES :: gen6_gtt_pte_t
  PTE_READ_ONLY :: "32 word"
  HSW_WB_LLC_AGE3 :: gen6_gtt_pte_t
  HSW_WT_ELLC_LLC_AGE3 :: gen6_gtt_pte_t
  HSW_WB_ELLC_LLC_AGE3 :: gen6_gtt_pte_t
  GEN6_PTE_ADDR_ENCODE :: "dma_addr_t \<Rightarrow> dma_addr_t"
  HSW_PTE_ADDR_ENCODE :: "dma_addr_t \<Rightarrow> dma_addr_t"
  GEN6_PDE_VALID :: "32 word"
  GEN6_PDE_ADDR_ENCODE :: "dma_addr_t \<Rightarrow> dma_addr_t"
  PPAT_CACHED_PDE_INDEX :: gen8_gtt_pte_t

text \<open>
  The values the macros have in this kernel's headers: x86 page bits
  (present = bit 0, rw = bit 1, pwt = bit 3, pcd = bit 4, pat = bit 7), the gen6
  valid bit 0 with the cache field in bits 3:1, and the address encodings that fold
  physical address bits 39:32 into bits 11:4 of the entry. Used where a statement
  depends on the actual bit layout.
\<close>

definition i915_hdr :: pte_bits where
  "i915_hdr = \<lparr>
     PAGE_PRESENT = 0x1,
     PAGE_RW = 0x2,
     PPAT_UNCACHED_INDEX = 0x18,
     PPAT_DISPLAY_ELLC_INDEX = 0x10,
     PPAT_CACHED_INDEX = 0x80,
     GEN6_PTE_VALID = 0x1,
     GEN6_PTE_UNCACHED = 0x2,
     GEN6_PTE_CACHE_LLC = 0x4,
     GEN7_PTE_CACHE_L3_LLC = 0x6,
     BYT_PTE_WRITEABLE = 0x2,
     BYT_PTE_SNOOPED_BY_CPU_CACHES = 0x4,
     PTE_READ_ONLY = 0x2,
     HSW_WB_LLC_AGE3 = 0x4,
     HSW_WT_ELLC_LLC_AGE3 = 0xE,
     HSW_WB_ELLC_LLC_AGE3 = 0x800,
     GEN6_PTE_ADDR_ENCODE = (\<lambda>addr. addr OR (drop_bit 28 addr AND 0xff0)),
     HSW_PTE_ADDR_ENCODE = (\<lambda>addr. addr OR (drop_bit 28 addr AND 0x7f0)),
     GEN6_PDE_VALID = 0x1,
     GEN6_PDE_ADDR_ENCODE = (\<lambda>addr. addr OR (drop_bit 28 addr AND 0xff0)),
     PPAT_CACHED_PDE_INDEX = 0x0 \<rparr>"

subsection \<open>The per-generation encoders\<close>

text \<open>
  Every encoder returns the entry together with a flag that tells whether
  \<open>WARN_ON(1)\<close> was reached, the only effect an encoder has besides its result.
\<close>

definition gen8_pte_encode ::
  "pte_bits \<Rightarrow> dma_addr_t \<Rightarrow> i915_cache_level \<Rightarrow> bool \<Rightarrow> gen8_gtt_pte_t \<times> bool" where
  "gen8_pte_encode h addr level valid =
     (let pte = (if valid then PAGE_PRESENT h OR PAGE_RW h else 0);
          pte = pte OR addr
      in case level of
           I915_CACHE_NONE \<Rightarrow> (pte OR PPAT_UNCACHED_INDEX h, False)
         | I915_CACHE_WT \<Rightarrow> (pte OR PPAT_DISPLAY_ELLC_INDEX h, False)
         | _ \<Rightarrow> (pte OR PPAT_CACHED_INDEX h, False))"

definition snb_pte_encode ::
  "pte_bits \<Rightarrow> dma_addr_t \<Rightarrow> i915_cache_level \<Rightarrow> bool \<Rightarrow> 32 word \<Rightarrow> gen6_gtt_pte_t \<times> bool" where
  "snb_pte_encode h addr level valid unused =
     (let pte = (if valid then GEN6_PTE_VALID h else 0);
          pte = pte OR ucast (GEN6_PTE_ADDR_ENCODE h addr)
      in case level of
           I915_CACHE_L3_LLC \<Rightarrow> (pte OR GEN6_PTE_CACHE_LLC h, False)
         | I915_CACHE_LLC \<Rightarrow> (pte OR GEN6_PTE_CACHE_LLC h, False)
         | I915_CACHE_NONE \<Rightarrow> (pte OR GEN6_PTE_UNCACHED h, False)
         | _ \<Rightarrow> (pte, True))"

definition ivb_pte_encode ::
  "pte_bits \<Rightarrow> dma_addr_t \<Rightarrow> i915_cache_level \<Rightarrow> bool \<Rightarrow> 32 word \<Rightarrow> gen6_gtt_pte_t \<times> bool" where
  "ivb_pte_encode h addr level valid unused =
     (let pte = (if valid then GEN6_PTE_VALID h else 0);
          pte = pte OR ucast (GEN6_PTE_ADDR_ENCODE h addr)
      in case level of
           I915_CACHE_L3_LLC \<Rightarrow> (pte OR GEN7_PTE_CACHE_L3_LLC h, False)
         | I915_CACHE_LLC \<Rightarrow> (pte OR GEN6_PTE_CACHE_LLC h, False)
         | I915_CACHE_NONE \<Rightarrow> (pte OR GEN6_PTE_UNCACHED h, False)
         | _ \<Rightarrow> (pte, True))"

definition byt_pte_encode ::
  "pte_bits \<Rightarrow> dma_addr_t \<Rightarrow> i915_cache_level \<Rightarrow> bool \<Rightarrow> 32 word \<Rightarrow> gen6_gtt_pte_t \<times> bool" where
  "byt_pte_encode h addr level valid flags =
     (let pte = (if valid then GEN6_PTE_VALID h else 0);
          pte = pte OR ucast (GEN6_PTE_ADDR_ENCODE h addr);
          pte = (if flags AND PTE_READ_ONLY h = 0 then pte OR BYT_PTE_WRITEABLE h else pte);
          pte = (if level \<noteq> I915_CACHE_NONE then pte OR BYT_PTE_SNOOPED_BY_CPU_CACHES h else pte)
      in (pte, False))"

definition hsw_pte_encode ::
  "pte_bits \<Rightarrow> dma_addr_t \<Rightarrow> i915_cache_level \<Rightarrow> bool \<Rightarrow> 32 word \<Rightarrow> gen6_gtt_pte_t \<times> bool" where
  "hsw_pte_encode h addr level valid unused =
     (let pte = (if valid then GEN6_PTE_VALID h else 0);
          pte = pte OR ucast (HSW_PTE_ADDR_ENCODE h addr);
          pte = (if level \<noteq> I915_CACHE_NONE then pte OR HSW_WB_LLC_AGE3 h else pte)
      in (pte, False))"

definition iris_pte_encode ::
  "pte_bits \<Rightarrow> dma_addr_t \<Rightarrow> i915_cache_level \<Rightarrow> bool \<Rightarrow> 32 word \<Rightarrow> gen6_gtt_pte_t \<times> bool" where
  "iris_pte_encode h addr level valid unused =
     (let pte = (if valid then GEN6_PTE_VALID h else 0);
          pte = pte OR ucast (HSW_PTE_ADDR_ENCODE h addr)
      in case level of
           I915_CACHE_NONE \<Rightarrow> (pte, False)
         | I915_CACHE_WT \<Rightarrow> (pte OR HSW_WT_ELLC_LLC_AGE3 h, False)
         | _ \<Rightarrow> (pte OR HSW_WB_ELLC_LLC_AGE3 h, False))"

definition gen8_pde_encode :: "pte_bits \<Rightarrow> dma_addr_t \<Rightarrow> i915_cache_level \<Rightarrow> gen8_gtt_pte_t" where
  "gen8_pde_encode h addr level =
     (let pde = PAGE_PRESENT h OR PAGE_RW h;
          pde = pde OR addr
      in if level \<noteq> I915_CACHE_NONE then pde OR PPAT_CACHED_PDE_INDEX h
         else pde OR PPAT_UNCACHED_INDEX h)"

section \<open>Per-process page tables (PPGTT)\<close>

subsection \<open>Geometry\<close>

text \<open>
  Modelled from the spec: the geometry macros live in \<open>i915_gem_gtt.h\<close>, which is not
  part of the sources at hand. The spec fixes entries of 4 bytes (2-level layout) and
  8 bytes (multi-level layout) and a quantum of 1 GiB per page-directory page; the
  source writes the page size as the literal 4096, describes the gen6 directory as
  ``512 entries'' and the gen8 layout as ``4 * 512 * 512 * 4096 = 4GB''. Hence a table
  page holds 4096 / 4 = 1024 entries on gen6 and 4096 / 8 = 512 on gen8.
\<close>

abbreviation PAGE_SHIFT :: nat where "PAGE_SHIFT \<equiv> 12"
abbreviation PAGE_SIZE :: nat where "PAGE_SIZE \<equiv> 4096"
abbreviation I915_PPGTT_PT_ENTRIES :: nat where "I915_PPGTT_PT_ENTRIES \<equiv> 1024"
abbreviation GEN6_PPGTT_PD_ENTRIES :: nat where "GEN6_PPGTT_PD_ENTRIES \<equiv> 512"
abbreviation GEN8_PTES_PER_PAGE :: nat where "GEN8_PTES_PER_PAGE \<equiv> 512"
abbreviation GEN8_PDES_PER_PAGE :: nat where "GEN8_PDES_PER_PAGE \<equiv> 512"
abbreviation GEN8_LEGACY_PDPS :: nat where "GEN8_LEGACY_PDPS \<equiv> 4"
abbreviation GEN8_PDPE_SHIFT :: nat where "GEN8_PDPE_SHIFT \<equiv> 30"
abbreviation GEN8_PDPE_MASK :: "64 word" where "GEN8_PDPE_MASK \<equiv> 3"
abbreviation GEN8_PDE_SHIFT :: nat where "GEN8_PDE_SHIFT \<equiv> 21"
abbreviation GEN8_PDE_MASK :: "64 word" where "GEN8_PDE_MASK \<equiv> 511"
abbreviation GEN8_PTE_SHIFT :: nat where "GEN8_PTE_SHIFT \<equiv> 12"
abbreviation GEN8_PTE_MASK :: "64 word" where "GEN8_PTE_MASK \<equiv> 511"

subsection \<open>C's \<open>unsigned\<close> arithmetic\<close>

text \<open>
  The loop counters are \<open>unsigned\<close> (32 bits). They are modelled as natural numbers
  below \<open>2 ^ 32\<close>; sums and differences that can wrap are written with \<open>u32_add\<close> and
  \<open>u32_sub\<close>, and \<open>to_unsigned\<close> is the truncating conversion of a \<open>uint64_t\<close>.
  Table indices (\<open>act_pt\<close>, \<open>pdpe\<close>, \<open>pde\<close>) are bounded by the number of tables
  before they are used and are incremented without wrap.
\<close>

definition u32_add :: "nat \<Rightarrow> nat \<Rightarrow> nat" where
  "u32_add a b = (a + b) mod 2 ^ 32"

definition u32_sub :: "nat \<Rightarrow> nat \<Rightarrow> nat" where
  "u32_sub a b = (a + 2 ^ 32 - b mod 2 ^ 32) mod 2 ^ 32"

definition to_unsigned :: "64 word \<Rightarrow> nat" where
  "to_unsigned x = unat x mod 2 ^ 32"

subsection \<open>The address space and its tables\<close>

text \<open>
  The table pages are the state the operations edit: \<open>pt_pages ! i\<close> is the content of
  the page \<open>ppgtt->pt_pages[i]\<close> (what \<open>kmap_atomic\<close> of it shows), and
  \<open>gen8_pt_pages ! pdpe ! pde\<close> the content of \<open>ppgtt->gen8_pt_pages[pdpe][pde]\<close>.
  An index past the end of the array of pages is an access outside the allocation; the
  operations then return \<open>None\<close>. Within a page the loops only write below the
  number of entries of a page.
\<close>

type_synonym gen6_tables = "gen6_gtt_pte_t list list"
type_synonym gen8_tables = "gen8_gtt_pte_t list list list"

datatype mm_switch = gen6_mm_switch | hsw_mm_switch | gen7_mm_switch | gen8_mm_switch

record i915_hw_ppgtt =
  scratch_addr :: dma_addr_t
  pte_encode :: "dma_addr_t \<Rightarrow> i915_cache_level \<Rightarrow> bool \<Rightarrow> 32 word \<Rightarrow> gen6_gtt_pte_t \<times> bool"
  pt_pages :: gen6_tables
  gen8_pt_pages :: gen8_tables
  num_pd_entries :: nat
  num_pd_pages :: nat
  pt_dma_addr :: "dma_addr_t list"
  gen8_pt_dma_addr :: "dma_addr_t list list"
  pd_dma_addr :: "dma_addr_t list"
  total :: "64 word"
  pd_offset :: "32 word"
  switch_mm :: "mm_switch option"
  gen6_pdes :: "32 word list"
  gen8_pdes :: "gen8_gtt_pte_t list list"

subsection \<open>\<open>gen6_ppgtt_clear_range\<close> and \<open>gen6_ppgtt_insert_entries\<close>\<close>

text \<open>\<open>for (i = first_pte; i < last_pte; i++) pt_vaddr[i] = scratch_pte;\<close>\<close>

function fill_ptes :: "'a \<Rightarrow> nat \<Rightarrow> nat \<Rightarrow> 'a list \<Rightarrow> 'a list" where
  "fill_ptes v i last_pte pt_vaddr =
     (if i < last_pte then fill_ptes v (i + 1) last_pte (pt_vaddr[i := v]) else pt_vaddr)"
  by pat_completeness auto
termination
  by (relation "measure (\<lambda>(v, i, last_pte, pt_vaddr). last_pte - i)") auto

text \<open>
  The \<open>while (num_entries)\<close> loop. Each iteration maps the one page
  \<open>pt_pages[act_pt]\<close>, fills it from \<open>first_pte\<close> up to \<open>last_pte\<close> and unmaps it.
\<close>

function gen6_clear_loop ::
  "gen6_gtt_pte_t \<Rightarrow> gen6_tables \<Rightarrow> nat \<Rightarrow> nat \<Rightarrow> nat \<Rightarrow> gen6_tables option" where
  "gen6_clear_loop scratch_pte pts act_pt first_pte num_entries =
     (if num_entries = 0 then Some pts
      else
        let last_pte = u32_add first_pte num_entries;
            last_pte = (if last_pte > I915_PPGTT_PT_ENTRIES then I915_PPGTT_PT_ENTRIES else last_pte)
        in if act_pt < length pts then
             gen6_clear_loop scratch_pte
               (pts[act_pt := fill_ptes scratch_pte first_pte last_pte (pts ! act_pt)])
               (act_pt + 1) 0 (u32_sub num_entries (u32_sub last_pte first_pte))
           else None)"
  by pat_completeness auto
termination
  by (relation "measure (\<lambda>(s, pts, act_pt, first_pte, num_entries). length pts - act_pt)") auto

text \<open>
  \<open>use_scratch\<close> is not read by the gen6 variant: the scratch entry is always encoded
  as valid.
\<close>

definition gen6_ppgtt_clear_range ::
  "i915_hw_ppgtt \<Rightarrow> 64 word \<Rightarrow> 64 word \<Rightarrow> bool \<Rightarrow> i915_hw_ppgtt option" where
  "gen6_ppgtt_clear_range ppgtt start len use_scratch =
     (let first_entry = to_unsigned (drop_bit PAGE_SHIFT start);
          num_entries = to_unsigned (drop_bit PAGE_SHIFT len);
          act_pt = first_entry div I915_PPGTT_PT_ENTRIES;
          first_pte = first_entry mod I915_PPGTT_PT_ENTRIES;
          scratch_pte = fst (pte_encode ppgtt (scratch_addr ppgtt) I915_CACHE_LLC True 0)
      in map_option (\<lambda>pts. ppgtt\<lparr>pt_pages := pts\<rparr>)
           (gen6_clear_loop scratch_pte (pt_pages ppgtt) act_pt first_pte num_entries))"

text \<open>
  \<open>for_each_sg_page\<close>: one entry per page of the scatter list, which is given as the
  list of the pages' bus addresses. The page \<open>pt_pages[act_pt]\<close> is mapped when
  \<open>pt_vaddr\<close> is \<open>NULL\<close>, that is at the first page and after each table boundary.
\<close>

fun gen6_insert_loop ::
  "(dma_addr_t \<Rightarrow> gen6_gtt_pte_t) \<Rightarrow> gen6_tables \<Rightarrow> nat \<Rightarrow> nat \<Rightarrow> dma_addr_t list \<Rightarrow>
   gen6_tables option" where
  "gen6_insert_loop enc pts act_pt act_pte [] = Some pts"
| "gen6_insert_loop enc pts act_pt act_pte (addr # sg) =
     (if act_pt < length pts then
        let pts' = pts[act_pt := (pts ! act_pt)[act_pte := enc addr]] in
        if u32_add act_pte 1 = I915_PPGTT_PT_ENTRIES
        then gen6_insert_loop enc pts' (act_pt + 1) 0 sg
        else gen6_insert_loop enc pts' act_pt (u32_add act_pte 1) sg
      else None)"

definition gen6_ppgtt_insert_entries ::
  "i915_hw_ppgtt \<Rightarrow> dma_addr_t list \<Rightarrow> 64 word \<Rightarrow> i915_cache_level \<Rightarrow> 32 word \<Rightarrow>
   i915_hw_ppgtt option" where
  "gen6_ppgtt_insert_entries ppgtt pages start cache_level flags =
     (let first_entry = to_unsigned (drop_bit PAGE_SHIFT start);
          act_pt = first_entry div I915_PPGTT_PT_ENTRIES;
          act_pte = first_entry mod I915_PPGTT_PT_ENTRIES
      in map_option (\<lambda>pts. ppgtt\<lparr>pt_pages := pts\<rparr>)
           (gen6_insert_loop (\<lambda>addr. fst (pte_encode ppgtt addr cache_level True flags))
              (pt_pages ppgtt) act_pt act_pte pages))"

subsection \<open>\<open>gen8_ppgtt_clear_range\<close> and \<open>gen8_ppgtt_insert_entries\<close>\<close>

text \<open>
  \<open>for (i = pte; i < last_pte; i++) { pt_vaddr[i] = scratch_pte; num_entries--; }\<close>
\<close>

function gen8_fill_ptes :: "'a \<Rightarrow> nat \<Rightarrow> nat \<Rightarrow> 'a list \<Rightarrow> nat \<Rightarrow> 'a list \<times> nat" where
  "gen8_fill_ptes v i last_pte pt_vaddr num_entries =
     (if i < last_pte
      then gen8_fill_ptes v (i + 1) last_pte (pt_vaddr[i := v]) (u32_sub num_entries 1)
      else (pt_vaddr, num_entries))"
  by pat_completeness auto
termination
  by (relation "measure (\<lambda>(v, i, last_pte, pt_vaddr, num_entries). last_pte - i)") auto

function gen8_clear_loop ::
  "gen8_gtt_pte_t \<Rightarrow> gen8_tables \<Rightarrow> nat \<Rightarrow> nat \<Rightarrow> nat \<Rightarrow> nat \<Rightarrow> gen8_tables option" where
  "gen8_clear_loop scratch_pte pds pdpe pde pte num_entries =
     (if num_entries = 0 then Some pds
      else if pdpe < length pds \<and> pde < length (pds ! pdpe) then
        let last_pte = u32_add pte num_entries;
            last_pte = (if last_pte > GEN8_PTES_PER_PAGE then GEN8_PTES_PER_PAGE else last_pte);
            (pt, num_entries) =
               gen8_fill_ptes scratch_pte pte last_pte (pds ! pdpe ! pde) num_entries;
            pds = pds[pdpe := (pds ! pdpe)[pde := pt]]
        in if pde + 1 = GEN8_PDES_PER_PAGE
           then gen8_clear_loop scratch_pte pds (pdpe + 1) 0 0 num_entries
           else gen8_clear_loop scratch_pte pds pdpe (pde + 1) 0 num_entries
      else None)"
  by pat_completeness auto
termination
  by (relation "measures [\<lambda>(s, pds, pdpe, pde, pte, n). length pds - pdpe,
                          \<lambda>(s, pds, pdpe, pde, pte, n). length (pds ! pdpe) - pde]") auto

definition gen8_ppgtt_clear_range ::
  "pte_bits \<Rightarrow> i915_hw_ppgtt \<Rightarrow> 64 word \<Rightarrow> 64 word \<Rightarrow> bool \<Rightarrow> i915_hw_ppgtt option" where
  "gen8_ppgtt_clear_range h ppgtt start len use_scratch =
     (let pdpe = to_unsigned (drop_bit GEN8_PDPE_SHIFT start AND GEN8_PDPE_MASK);
          pde = to_unsigned (drop_bit GEN8_PDE_SHIFT start AND GEN8_PDE_MASK);
          pte = to_unsigned (drop_bit GEN8_PTE_SHIFT start AND GEN8_PTE_MASK);
          num_entries = to_unsigned (drop_bit PAGE_SHIFT len);
          scratch_pte = fst (gen8_pte_encode h (scratch_addr ppgtt) I915_CACHE_LLC use_scratch)
      in map_option (\<lambda>pds. ppgtt\<lparr>gen8_pt_pages := pds\<rparr>)
           (gen8_clear_loop scratch_pte (gen8_pt_pages ppgtt) pdpe pde pte num_entries))"

text \<open>
  The loop stops, with a warning, once \<open>pdpe\<close> reaches \<open>GEN8_LEGACY_PDPS\<close>; the pages
  of the list not yet written stay unwritten.
\<close>

fun gen8_insert_loop ::
  "(dma_addr_t \<Rightarrow> gen8_gtt_pte_t) \<Rightarrow> gen8_tables \<Rightarrow> nat \<Rightarrow> nat \<Rightarrow> nat \<Rightarrow> dma_addr_t list \<Rightarrow>
   gen8_tables option" where
  "gen8_insert_loop enc pds pdpe pde pte [] = Some pds"
| "gen8_insert_loop enc pds pdpe pde pte (addr # sg) =
     (if pdpe \<ge> GEN8_LEGACY_PDPS then Some pds
      else if pdpe < length pds \<and> pde < length (pds ! pdpe) then
        let pds' = pds[pdpe := (pds ! pdpe)[pde := (pds ! pdpe ! pde)[pte := enc addr]]] in
        if pte + 1 = GEN8_PTES_PER_PAGE then
          (if pde + 1 = GEN8_PDES_PER_PAGE
           then gen8_insert_loop enc pds' (pdpe + 1) 0 0 sg
           else gen8_insert_loop enc pds' pdpe (pde + 1) 0 sg)
        else gen8_insert_loop enc pds' pdpe pde (pte + 1) sg
      else None)"

definition gen8_ppgtt_insert_entries ::
  "pte_bits \<Rightarrow> i915_hw_ppgtt \<Rightarrow> dma_addr_t list \<Rightarrow> 64 word \<Rightarrow> i915_cache_level \<Rightarrow> 32 word \<Rightarrow>
   i915_hw_ppgtt option" where
  "gen8_ppgtt_insert_entries h ppgtt pages start cache_level unused =
     (let pdpe = to_unsigned (drop_bit GEN8_PDPE_SHIFT start AND GEN8_PDPE_MASK);
          pde = to_unsigned (drop_bit GEN8_PDE_SHIFT start AND GEN8_PDE_MASK);
          pte = to_unsigned (drop_bit GEN8_PTE_SHIFT start AND GEN8_PTE_MASK)
      in map_option (\<lambda>pds. ppgtt\<lparr>gen8_pt_pages := pds\<rparr>)
           (gen8_insert_loop (\<lambda>addr. fst (gen8_pte_encode h addr cache_level True))
              (gen8_pt_pages ppgtt) pdpe pde pte pages))"

subsection \<open>Binding hooks\<close>

text \<open>
  \<open>node_start\<close> is \<open>vma->node.start\<close> and \<open>obj_size\<close> is \<open>vma->obj->base.size\<close>.
  \<open>vm->clear_range\<close> and \<open>vm->insert_entries\<close> are function pointers of the address
  space; the hooks take them as arguments.
\<close>

record i915_vma =
  node_start :: "64 word"
  obj_size :: "64 word"
  obj_pages :: "dma_addr_t list"
  gt_ro :: bool

definition ppgtt_bind_vma ::
  "pte_bits \<Rightarrow> ('vm \<Rightarrow> dma_addr_t list \<Rightarrow> 64 word \<Rightarrow> i915_cache_level \<Rightarrow> 32 word \<Rightarrow> 'vm option) \<Rightarrow>
   'vm \<Rightarrow> i915_vma \<Rightarrow> i915_cache_level \<Rightarrow> 32 word \<Rightarrow> 'vm option" where
  "ppgtt_bind_vma h insert_entries vm vma cache_level flags =
     (let flags = (if gt_ro vma then flags OR PTE_READ_ONLY h else flags)
      in insert_entries vm (obj_pages vma) (node_start vma) cache_level flags)"

definition ppgtt_unbind_vma ::
  "('vm \<Rightarrow> 64 word \<Rightarrow> 64 word \<Rightarrow> bool \<Rightarrow> 'vm option) \<Rightarrow> 'vm \<Rightarrow> i915_vma \<Rightarrow> 'vm option" where
  "ppgtt_unbind_vma clear_range vm vma = clear_range vm (node_start vma) (obj_size vma) True"

text \<open>
  The state \<open>ggtt_unbind_vma\<close> works on: the global address space, the aliasing PPGTT
  (\<open>dev_priv->mm.aliasing_ppgtt\<close>, possibly \<open>NULL\<close>) and the two mapping flags of the
  object. Dereferencing a \<open>NULL\<close> aliasing PPGTT gives \<open>None\<close>.
\<close>

record ('g, 'p) ggtt_state =
  ggtt_vm :: 'g
  aliasing_ppgtt :: "'p option"
  has_global_gtt_mapping :: bool
  has_aliasing_ppgtt_mapping :: bool

definition ggtt_unbind_vma ::
  "('g \<Rightarrow> 64 word \<Rightarrow> 64 word \<Rightarrow> bool \<Rightarrow> 'g option) \<Rightarrow>
   ('p \<Rightarrow> 64 word \<Rightarrow> 64 word \<Rightarrow> bool \<Rightarrow> 'p option) \<Rightarrow>
   ('g, 'p) ggtt_state \<Rightarrow> i915_vma \<Rightarrow> ('g, 'p) ggtt_state option" where
  "ggtt_unbind_vma ggtt_clear_range appgtt_clear_range st vma =
     (case (if has_global_gtt_mapping st
            then map_option (\<lambda>g. st\<lparr>ggtt_vm := g, has_global_gtt_mapping := False\<rparr>)
                   (ggtt_clear_range (ggtt_vm st) (node_start vma) (obj_size vma) True)
            else Some st) of
        None \<Rightarrow> None
      | Some st \<Rightarrow>
          if has_aliasing_ppgtt_mapping st then
            (case aliasing_ppgtt st of
               None \<Rightarrow> None
             | Some appgtt \<Rightarrow>
                 map_option
                   (\<lambda>p. st\<lparr>aliasing_ppgtt := Some p, has_aliasing_ppgtt_mapping := False\<rparr>)
                   (appgtt_clear_range appgtt (node_start vma) (obj_size vma) True))
          else Some st)"

subsection \<open>What the table writes amount to\<close>

text \<open>
  The specification the loops are compared with. Entry \<open>e\<close> of table page \<open>p\<close> is entry
  number \<open>p * n + e\<close> of the address space (\<open>n\<close> entries per page); on gen8 entry \<open>e\<close>
  of page \<open>pde\<close> of directory \<open>pdpe\<close> is entry number \<open>gen8_index pdpe pde e\<close>.
  \<open>pt_write n pts lo vs\<close> is the store \<open>pts\<close> with the values \<open>vs\<close> written to the
  entries numbered \<open>lo\<close>, \<open>lo + 1\<close>, ... and every other entry kept; \<open>pd_write\<close> is the
  same for the gen8 layout. \<open>wf_tables\<close> and \<open>wf_dirs\<close> say that every page has the
  size of a page.
\<close>

definition pt_write :: "nat \<Rightarrow> 'a list list \<Rightarrow> nat \<Rightarrow> 'a list \<Rightarrow> 'a list list" where
  "pt_write n pts lo vs =
     map (\<lambda>p. map (\<lambda>e. if lo \<le> p * n + e \<and> p * n + e < lo + length vs
                        then vs ! (p * n + e - lo) else pts ! p ! e) [0..<n])
       [0..<length pts]"

definition wf_tables :: "nat \<Rightarrow> 'a list list \<Rightarrow> bool" where
  "wf_tables n pts = list_all (\<lambda>pt. length pt = n) pts"

definition gen8_index :: "nat \<Rightarrow> nat \<Rightarrow> nat \<Rightarrow> nat" where
  "gen8_index pdpe pde pte = (pdpe * 512 + pde) * 512 + pte"

definition pd_write :: "'a list list list \<Rightarrow> nat \<Rightarrow> 'a list \<Rightarrow> 'a list list list" where
  "pd_write pds lo vs =
     map (\<lambda>i. map (\<lambda>j. map (\<lambda>e.
            if lo \<le> gen8_index i j e \<and> gen8_index i j e < lo + length vs
            then vs ! (gen8_index i j e - lo) else pds ! i ! j ! e) [0..<512]) [0..<512])
       [0..<length pds]"

definition wf_dirs :: "'a list list list \<Rightarrow> bool" where
  "wf_dirs pds = list_all (\<lambda>pd. length pd = 512 \<and> wf_tables 512 pd) pds"

text \<open>
  The scratch-page encoding: the scratch page's address encoded as a valid entry.
\<close>

definition gen6_scratch_pte :: "i915_hw_ppgtt \<Rightarrow> gen6_gtt_pte_t" where
  "gen6_scratch_pte ppgtt = fst (pte_encode ppgtt (scratch_addr ppgtt) I915_CACHE_LLC True 0)"

definition gen8_scratch_pte :: "pte_bits \<Rightarrow> i915_hw_ppgtt \<Rightarrow> gen8_gtt_pte_t" where
  "gen8_scratch_pte h ppgtt = fst (gen8_pte_encode h (scratch_addr ppgtt) I915_CACHE_LLC True)"

text \<open>
  An address space as initialisation builds it (at most 512 table pages on gen6, at
  most 4 directories of 512 table pages on gen8), and a page-aligned virtual range of
  \<open>n\<close> pages from page number \<open>s\<close> that lies inside it.
\<close>

definition gen6_space :: "i915_hw_ppgtt \<Rightarrow> bool" where
  "gen6_space ppgtt =
     (wf_tables I915_PPGTT_PT_ENTRIES (pt_pages ppgtt) \<and>
      length (pt_pages ppgtt) \<le> GEN6_PPGTT_PD_ENTRIES)"

definition gen8_space :: "i915_hw_ppgtt \<Rightarrow> bool" where
  "gen8_space ppgtt =
     (wf_dirs (gen8_pt_pages ppgtt) \<and> length (gen8_pt_pages ppgtt) \<le> GEN8_LEGACY_PDPS)"

definition gen6_range :: "i915_hw_ppgtt \<Rightarrow> 64 word \<Rightarrow> nat \<Rightarrow> nat \<Rightarrow> bool" where
  "gen6_range ppgtt start s n =
     (unat start = s * PAGE_SIZE \<and> s + n \<le> length (pt_pages ppgtt) * I915_PPGTT_PT_ENTRIES)"

definition gen8_range :: "i915_hw_ppgtt \<Rightarrow> 64 word \<Rightarrow> nat \<Rightarrow> nat \<Rightarrow> bool" where
  "gen8_range ppgtt start s n =
     (unat start = s * PAGE_SIZE \<and>
      s + n \<le> length (gen8_pt_pages ppgtt) * (GEN8_PDES_PER_PAGE * GEN8_PTES_PER_PAGE))"

subsection \<open>The global GTT\<close>

text \<open>
  The global GTT is one flat array of entries behind \<open>dev_priv->gtt.gsm\<close>.
  \<open>gtt_total_entries\<close> is the value of the header macro of that name. In
  \<open>gen6_ggtt_clear_range\<close> the bound \<open>max_entries\<close> is an \<open>int\<close> that is compared with
  the \<open>unsigned\<close> \<open>num_entries\<close>, hence as an unsigned number; a write or the posting
  read \<open>readl(gtt_base)\<close> outside the array gives \<open>None\<close>.
\<close>

record i915_gtt =
  gtt_scratch_addr :: dma_addr_t
  gtt_pte_encode :: "dma_addr_t \<Rightarrow> i915_cache_level \<Rightarrow> bool \<Rightarrow> 32 word \<Rightarrow> gen6_gtt_pte_t \<times> bool"
  gsm :: "gen6_gtt_pte_t list"
  gtt_total_entries :: nat

definition gen6_ggtt_clear_range :: "i915_gtt \<Rightarrow> 64 word \<Rightarrow> 64 word \<Rightarrow> bool \<Rightarrow> i915_gtt option" where
  "gen6_ggtt_clear_range gtt start len use_scratch =
     (let first_entry = to_unsigned (drop_bit PAGE_SHIFT start);
          num_entries = to_unsigned (drop_bit PAGE_SHIFT len);
          max_entries = u32_sub (gtt_total_entries gtt) first_entry;
          num_entries = (if num_entries > max_entries then max_entries else num_entries);
          scratch_pte = fst (gtt_pte_encode gtt (gtt_scratch_addr gtt) I915_CACHE_LLC use_scratch 0)
      in if first_entry < length (gsm gtt) \<and> first_entry + num_entries \<le> length (gsm gtt)
         then Some (gtt\<lparr>gsm := fill_ptes scratch_pte first_entry (first_entry + num_entries) (gsm gtt)\<rparr>)
         else None)"

subsection \<open>Example address spaces\<close>

text \<open>
  Concrete address spaces used to instantiate the theorems below. \<open>example_ppgtt6\<close> is
  a gen6 space of two table pages on a Sandybridge (\<open>snb_pte_encode\<close>) whose entries
  all hold the scratch encoding \<open>0x1005\<close> (scratch page at \<open>0x1000\<close>, LLC, valid);
  \<open>example_ppgtt8\<close> is a gen8 space of one directory, all entries holding the gen8
  scratch encoding \<open>0x1083\<close>; \<open>mapped_ppgtt6\<close> is \<open>example_ppgtt6\<close> with the page at
  \<open>0x3000\<close> mapped at entry 0.
\<close>

definition example_ppgtt6 :: i915_hw_ppgtt where
  "example_ppgtt6 = \<lparr>
     scratch_addr = 0x1000,
     pte_encode = snb_pte_encode i915_hdr,
     pt_pages = replicate 2 (replicate 1024 0x1005),
     gen8_pt_pages = [],
     num_pd_entries = 2,
     num_pd_pages = 0,
     pt_dma_addr = [0x10000, 0x11000],
     gen8_pt_dma_addr = [],
     pd_dma_addr = [],
     total = 0x800000,
     pd_offset = 0,
     switch_mm = Some gen6_mm_switch,
     gen6_pdes = [],
     gen8_pdes = [] \<rparr>"

definition example_ppgtt8 :: i915_hw_ppgtt where
  "example_ppgtt8 = \<lparr>
     scratch_addr = 0x1000,
     pte_encode = snb_pte_encode i915_hdr,
     pt_pages = [],
     gen8_pt_pages = [replicate 512 (replicate 512 0x1083)],
     num_pd_entries = 512,
     num_pd_pages = 1,
     pt_dma_addr = [],
     gen8_pt_dma_addr = [],
     pd_dma_addr = [],
     total = 0x40000000,
     pd_offset = 0,
     switch_mm = Some gen8_mm_switch,
     gen6_pdes = [],
     gen8_pdes = [] \<rparr>"

definition mapped_ppgtt6 :: i915_hw_ppgtt where
  "mapped_ppgtt6 =
     example_ppgtt6\<lparr>pt_pages := [(replicate 1024 0x1005)[0 := 0x3005], replicate 1024 0x1005]\<rparr>"

text \<open>
  A global GTT of four entries with the page at \<open>0x3000\<close> mapped at entry 0, an object
  of one page bound at offset 0, and the state in which that object is mapped both in
  the global GTT and in the aliasing PPGTT \<open>mapped_ppgtt6\<close>.
\<close>

definition example_gtt :: i915_gtt where
  "example_gtt = \<lparr>
     gtt_scratch_addr = 0x1000,
     gtt_pte_encode = snb_pte_encode i915_hdr,
     gsm = [0x3005, 0x1005, 0x1005, 0x1005],
     gtt_total_entries = 4 \<rparr>"

definition example_vma :: i915_vma where
  "example_vma = \<lparr> node_start = 0, obj_size = 0x1000, obj_pages = [0x3000], gt_ro = False \<rparr>"

definition example_ggtt_state :: "(i915_gtt, i915_hw_ppgtt) ggtt_state" where
  "example_ggtt_state = \<lparr>
     ggtt_vm = example_gtt,
     aliasing_ppgtt = Some mapped_ppgtt6,
     has_global_gtt_mapping = True,
     has_aliasing_ppgtt_mapping = True \<rparr>"

section \<open>Initialisation of a PPGTT\<close>

subsection \<open>Return values\<close>

text \<open>
  The functions return \<open>0\<close> or a negative errno; here \<open>None\<close> is \<open>0\<close> and \<open>Some e\<close> the
  error. \<open>BUG\<close> stands for reaching \<open>BUG()\<close> or a failing \<open>BUG_ON\<close>, and \<open>FAULT\<close> for an
  access outside an allocation.
\<close>

datatype error = EIO | ENOMEM | ENOSPC | EBUSY | EINVAL | EDEADLK | EOTHER int | BUG | FAULT

subsection \<open>The 2-level (gen6) allocator\<close>

text \<open>
  What the kernel services called by the allocator answer is an input of the model:
  the platform tests, whether the GGTT range manager is initialised, what the calls of
  \<open>drm_mm_insert_node_in_range_generic\<close> return (the error, or the start of the
  reserved node; numbered from 0 in call order), what \<open>i915_gem_evict_something\<close>
  returns, whether the two \<open>kcalloc\<close>s succeed, what \<open>alloc_page\<close> gives for table
  page \<open>i\<close> (nothing, or a page with arbitrary content) and what \<open>pci_map_page\<close> gives
  for it (\<open>None\<close> when \<open>pci_dma_mapping_error\<close> holds).
\<close>

record gen6_env =
  IS_GEN6 :: bool
  IS_HASWELL :: bool
  IS_GEN7 :: bool
  gtt_base_pte_encode ::
    "dma_addr_t \<Rightarrow> i915_cache_level \<Rightarrow> bool \<Rightarrow> 32 word \<Rightarrow> gen6_gtt_pte_t \<times> bool"
  drm_mm_initialized :: bool
  drm_mm_insert_node :: "nat \<Rightarrow> error + 64 word"
  i915_gem_evict_something :: "error option"
  kcalloc_pt_pages :: bool
  alloc_page :: "nat \<Rightarrow> (nat \<Rightarrow> gen6_gtt_pte_t) option"
  kcalloc_pt_dma_addr :: bool
  pci_map_page :: "nat \<Rightarrow> dma_addr_t option"

text \<open>
  The state: the \<open>i915_hw_ppgtt\<close> itself and the resources it holds. \<open>node\<close> is the
  reservation of \<open>ppgtt->node\<close> in the GGTT range manager, \<open>pt_pages_live\<close> and
  \<open>pt_dma_addr_live\<close> say whether the two arrays are allocated, \<open>pages_held\<close> counts
  the table pages allocated and not freed, \<open>dma_mapped\<close> lists the live DMA mappings.
  \<open>stray_unmaps\<close> counts the calls of \<open>pci_unmap_page\<close> on an address that is not
  mapped and \<open>stray_frees\<close> the calls of \<open>__free_page\<close> on a \<open>NULL\<close> page. While the
  table pages are being allocated, \<open>pt_pages\<close> holds the pages allocated so far; the
  slots from its length on are \<open>NULL\<close>.
\<close>

record gen6_world =
  hw :: i915_hw_ppgtt
  node :: "64 word option"
  pt_pages_live :: bool
  pt_dma_addr_live :: bool
  pages_held :: nat
  dma_mapped :: "dma_addr_t list"
  stray_unmaps :: nat
  stray_frees :: nat

definition pci_unmap_page :: "dma_addr_t \<Rightarrow> gen6_world \<Rightarrow> gen6_world" where
  "pci_unmap_page addr w =
     (if addr \<in> set (dma_mapped w) then w\<lparr>dma_mapped := remove1 addr (dma_mapped w)\<rparr>
      else w\<lparr>stray_unmaps := stray_unmaps w + 1\<rparr>)"

definition gen6_ppgtt_unmap_pages :: "gen6_world \<Rightarrow> gen6_world" where
  "gen6_ppgtt_unmap_pages w =
     (if pt_dma_addr_live w then
        fold (\<lambda>i w. pci_unmap_page (pt_dma_addr (hw w) ! i) w) [0..<num_pd_entries (hw w)] w
      else w)"

definition free_page :: "nat \<Rightarrow> gen6_world \<Rightarrow> gen6_world" where
  "free_page i w =
     (if i < length (pt_pages (hw w)) then w\<lparr>pages_held := pages_held w - 1\<rparr>
      else w\<lparr>stray_frees := stray_frees w + 1\<rparr>)"

definition gen6_ppgtt_free :: "gen6_world \<Rightarrow> gen6_world" where
  "gen6_ppgtt_free w =
     (let w = w\<lparr>pt_dma_addr_live := False\<rparr>;
          w = fold free_page [0..<num_pd_entries (hw w)] w
      in w\<lparr>pt_pages_live := False\<rparr>)"

definition drm_mm_remove_node :: "gen6_world \<Rightarrow> gen6_world" where
  "drm_mm_remove_node w = w\<lparr>node := None\<rparr>"

definition gen6_ppgtt_cleanup :: "gen6_world \<Rightarrow> gen6_world" where
  "gen6_ppgtt_cleanup w = gen6_ppgtt_free (gen6_ppgtt_unmap_pages (drm_mm_remove_node w))"

text \<open>
  \<open>gen6_ppgtt_allocate_page_directories\<close>: the \<open>goto alloc\<close> is taken at most once
  (\<open>retried\<close>), so the retry is written out.
\<close>

definition set_num_pd_entries :: "nat \<Rightarrow> gen6_world \<Rightarrow> gen6_world" where
  "set_num_pd_entries n w = w\<lparr>hw := (hw w)\<lparr>num_pd_entries := n\<rparr>\<rparr>"

definition gen6_ppgtt_allocate_page_directories ::
  "gen6_env \<Rightarrow> gen6_world \<Rightarrow> error option \<times> gen6_world" where
  "gen6_ppgtt_allocate_page_directories env w =
     (if \<not> drm_mm_initialized env then (Some BUG, w)
      else case drm_mm_insert_node env 0 of
        Inr start \<Rightarrow> (None, set_num_pd_entries GEN6_PPGTT_PD_ENTRIES (w\<lparr>node := Some start\<rparr>))
      | Inl ret \<Rightarrow>
          if ret = ENOSPC then
            (case i915_gem_evict_something env of
               Some ret \<Rightarrow> (Some ret, w)
             | None \<Rightarrow>
                 (case drm_mm_insert_node env 1 of
                    Inr start \<Rightarrow>
                      (None, set_num_pd_entries GEN6_PPGTT_PD_ENTRIES (w\<lparr>node := Some start\<rparr>))
                  | Inl ret \<Rightarrow> (Some ret, set_num_pd_entries GEN6_PPGTT_PD_ENTRIES w)))
          else (Some ret, set_num_pd_entries GEN6_PPGTT_PD_ENTRIES w))"

definition store_pt_page :: "(nat \<Rightarrow> gen6_gtt_pte_t) \<Rightarrow> gen6_world \<Rightarrow> gen6_world" where
  "store_pt_page f w =
     w\<lparr>hw := (hw w)\<lparr>pt_pages := pt_pages (hw w) @ [map f [0..<I915_PPGTT_PT_ENTRIES]]\<rparr>,
       pages_held := pages_held w + 1\<rparr>"

function gen6_alloc_pt_loop :: "gen6_env \<Rightarrow> gen6_world \<Rightarrow> nat \<Rightarrow> error option \<times> gen6_world" where
  "gen6_alloc_pt_loop env w i =
     (if i < num_pd_entries (hw w) then
        (case alloc_page env i of
           None \<Rightarrow> (Some ENOMEM, gen6_ppgtt_free w)
         | Some f \<Rightarrow> gen6_alloc_pt_loop env (store_pt_page f w) (i + 1))
      else (None, w))"
  by pat_completeness auto
termination
  by (relation "measure (\<lambda>(env, w, i). num_pd_entries (hw w) - i)")
     (auto simp add: store_pt_page_def)

definition gen6_ppgtt_allocate_page_tables ::
  "gen6_env \<Rightarrow> gen6_world \<Rightarrow> error option \<times> gen6_world" where
  "gen6_ppgtt_allocate_page_tables env w =
     (if \<not> kcalloc_pt_pages env then (Some ENOMEM, w)
      else gen6_alloc_pt_loop env (w\<lparr>hw := (hw w)\<lparr>pt_pages := []\<rparr>, pt_pages_live := True\<rparr>) 0)"

definition gen6_ppgtt_alloc :: "gen6_env \<Rightarrow> gen6_world \<Rightarrow> error option \<times> gen6_world" where
  "gen6_ppgtt_alloc env w =
     (case gen6_ppgtt_allocate_page_directories env w of
        (Some ret, w) \<Rightarrow> (Some ret, w)
      | (None, w) \<Rightarrow>
          (case gen6_ppgtt_allocate_page_tables env w of
             (Some ret, w) \<Rightarrow> (Some ret, drm_mm_remove_node w)
           | (None, w) \<Rightarrow>
               if \<not> kcalloc_pt_dma_addr env then
                 (Some ENOMEM, gen6_ppgtt_free (drm_mm_remove_node w))
               else
                 (None, w\<lparr>hw := (hw w)\<lparr>pt_dma_addr := replicate (num_pd_entries (hw w)) 0\<rparr>,
                          pt_dma_addr_live := True\<rparr>)))"

definition store_pt_dma_addr :: "nat \<Rightarrow> dma_addr_t \<Rightarrow> gen6_world \<Rightarrow> gen6_world" where
  "store_pt_dma_addr i pt_addr w =
     w\<lparr>hw := (hw w)\<lparr>pt_dma_addr := (pt_dma_addr (hw w))[i := pt_addr]\<rparr>,
       dma_mapped := dma_mapped w @ [pt_addr]\<rparr>"

function gen6_setup_loop :: "gen6_env \<Rightarrow> gen6_world \<Rightarrow> nat \<Rightarrow> error option \<times> gen6_world" where
  "gen6_setup_loop env w i =
     (if i < num_pd_entries (hw w) then
        (case pci_map_page env i of
           None \<Rightarrow> (Some EIO, gen6_ppgtt_unmap_pages w)
         | Some pt_addr \<Rightarrow> gen6_setup_loop env (store_pt_dma_addr i pt_addr w) (i + 1))
      else (None, w))"
  by pat_completeness auto
termination
  by (relation "measure (\<lambda>(env, w, i). num_pd_entries (hw w) - i)")
     (auto simp add: store_pt_dma_addr_def)

definition gen6_ppgtt_setup_page_tables ::
  "gen6_env \<Rightarrow> gen6_world \<Rightarrow> error option \<times> gen6_world" where
  "gen6_ppgtt_setup_page_tables env w = gen6_setup_loop env w 0"

text \<open>
  \<open>gen6_write_pdes\<close> writes the directory entries into the GGTT at \<open>pd_offset\<close>;
  \<open>gen6_pdes\<close> is that window.
\<close>

definition gen6_write_pdes :: "pte_bits \<Rightarrow> i915_hw_ppgtt \<Rightarrow> i915_hw_ppgtt" where
  "gen6_write_pdes h ppgtt =
     ppgtt\<lparr>gen6_pdes :=
       map (\<lambda>i. ucast (GEN6_PDE_ADDR_ENCODE h (pt_dma_addr ppgtt ! i)) OR GEN6_PDE_VALID h)
         [0..<num_pd_entries ppgtt]\<rparr>"

definition gen6_select_switch_mm :: "gen6_env \<Rightarrow> mm_switch option" where
  "gen6_select_switch_mm env =
     (if IS_GEN6 env then Some gen6_mm_switch
      else if IS_HASWELL env then Some hsw_mm_switch
      else if IS_GEN7 env then Some gen7_mm_switch
      else None)"

definition gen6_ppgtt_init ::
  "pte_bits \<Rightarrow> gen6_env \<Rightarrow> gen6_world \<Rightarrow> error option \<times> gen6_world" where
  "gen6_ppgtt_init h env w =
     (let w = w\<lparr>hw := (hw w)\<lparr>pte_encode := gtt_base_pte_encode env\<rparr>\<rparr>
      in case gen6_select_switch_mm env of
        None \<Rightarrow> (Some BUG, w)
      | Some sw \<Rightarrow>
          (case gen6_ppgtt_alloc env (w\<lparr>hw := (hw w)\<lparr>switch_mm := Some sw\<rparr>\<rparr>) of
             (Some ret, w) \<Rightarrow> (Some ret, w)
           | (None, w) \<Rightarrow>
               (case gen6_ppgtt_setup_page_tables env w of
                  (Some ret, w) \<Rightarrow> (Some ret, gen6_ppgtt_free w)
                | (None, w) \<Rightarrow>
                    (let ppgtt = (hw w)\<lparr>
                           total := of_nat (num_pd_entries (hw w) * I915_PPGTT_PT_ENTRIES * PAGE_SIZE),
                           pd_offset := (case node w of None \<Rightarrow> 0 | Some start \<Rightarrow> ucast (start div 4096 * 4))\<rparr>
                     in case gen6_ppgtt_clear_range ppgtt 0 (total ppgtt) True of
                          None \<Rightarrow> (Some FAULT, w\<lparr>hw := ppgtt\<rparr>)
                        | Some ppgtt \<Rightarrow> (None, w\<lparr>hw := gen6_write_pdes h ppgtt\<rparr>)))))"

subsection \<open>The multi-level (gen8) allocator\<close>

text \<open>
  The kernel services as inputs: \<open>get_order\<close> (applied to the \<open>int\<close>
  \<open>max_pdp << PAGE_SHIFT\<close>), whether \<open>alloc_pages\<close> for the directory pages and the
  \<open>kcalloc\<close>s for directory \<open>i\<close> succeed, what \<open>alloc_page\<close> gives for table page \<open>j\<close> of
  directory \<open>i\<close>, and what \<open>pci_map_page\<close> gives for a directory page and for a table
  page (the value of \<open>pci_dma_mapping_error\<close>, or the address). The release of pages on
  the failure paths is not tracked for this variant: \<open>gen8_ppgtt_unmap_pages\<close> and
  \<open>gen8_ppgtt_free\<close> leave the fields of the model as they are.
\<close>

record gen8_env =
  get_order :: "int \<Rightarrow> nat"
  alloc_pd_pages :: bool
  kcalloc_gen8_pt_pages :: "nat \<Rightarrow> bool"
  alloc_gen8_page :: "nat \<Rightarrow> nat \<Rightarrow> (nat \<Rightarrow> gen8_gtt_pte_t) option"
  kcalloc_gen8_pt_dma_addr :: "nat \<Rightarrow> bool"
  pci_map_pd_page :: "nat \<Rightarrow> error + dma_addr_t"
  pci_map_pt_page :: "nat \<Rightarrow> nat \<Rightarrow> error + dma_addr_t"

text \<open>\<open>__gen8_alloc_page_tables\<close>: the 512 table pages of one directory, or \<open>-ENOMEM\<close>.\<close>

function gen8_alloc_pt_loop ::
  "(nat \<Rightarrow> (nat \<Rightarrow> gen8_gtt_pte_t) option) \<Rightarrow> gen8_gtt_pte_t list list \<Rightarrow> nat \<Rightarrow>
   gen8_gtt_pte_t list list option" where
  "gen8_alloc_pt_loop alloc pts i =
     (if i < GEN8_PDES_PER_PAGE then
        (case alloc i of
           None \<Rightarrow> None
         | Some f \<Rightarrow> gen8_alloc_pt_loop alloc (pts @ [map f [0..<GEN8_PTES_PER_PAGE]]) (i + 1))
      else Some pts)"
  by pat_completeness auto
termination
  by (relation "measure (\<lambda>(alloc, pts, i). GEN8_PDES_PER_PAGE - i)") auto

definition gen8_alloc_page_tables :: "gen8_env \<Rightarrow> nat \<Rightarrow> error + gen8_gtt_pte_t list list" where
  "gen8_alloc_page_tables env pd =
     (if \<not> kcalloc_gen8_pt_pages env pd then Inl ENOMEM
      else case gen8_alloc_pt_loop (alloc_gen8_page env pd) [] 0 of
             None \<Rightarrow> Inl ENOMEM
           | Some pts \<Rightarrow> Inr pts)"

text \<open>
  \<open>gen8_ppgtt_allocate_page_tables\<close> collects the directories in a local array of
  \<open>GEN8_LEGACY_PDPS\<close> slots; a store past its end is a \<open>FAULT\<close>.
\<close>

function gen8_allocate_pt_loop ::
  "gen8_env \<Rightarrow> int \<Rightarrow> gen8_tables \<Rightarrow> nat \<Rightarrow> error + gen8_tables" where
  "gen8_allocate_pt_loop env max_pdp pts i =
     (if int i < max_pdp then
        (if GEN8_LEGACY_PDPS \<le> i then Inl FAULT
         else case gen8_alloc_page_tables env i of
                Inl ret \<Rightarrow> Inl ret
              | Inr p \<Rightarrow> gen8_allocate_pt_loop env max_pdp (pts @ [p]) (i + 1))
      else Inr pts)"
  by pat_completeness auto
termination
  by (relation "measure (\<lambda>(env, max_pdp, pts, i). GEN8_LEGACY_PDPS - i)") auto

definition gen8_ppgtt_allocate_page_tables ::
  "gen8_env \<Rightarrow> i915_hw_ppgtt \<Rightarrow> int \<Rightarrow> error option \<times> i915_hw_ppgtt" where
  "gen8_ppgtt_allocate_page_tables env ppgtt max_pdp =
     (case gen8_allocate_pt_loop env max_pdp [] 0 of
        Inl ret \<Rightarrow> (Some ret, ppgtt)
      | Inr pts \<Rightarrow> (None, ppgtt\<lparr>gen8_pt_pages := pts\<rparr>))"

function gen8_allocate_dma_loop ::
  "gen8_env \<Rightarrow> i915_hw_ppgtt \<Rightarrow> nat \<Rightarrow> error option \<times> i915_hw_ppgtt" where
  "gen8_allocate_dma_loop env ppgtt i =
     (if i < num_pd_pages ppgtt then
        (if \<not> kcalloc_gen8_pt_dma_addr env i then (Some ENOMEM, ppgtt)
         else gen8_allocate_dma_loop env
                (ppgtt\<lparr>gen8_pt_dma_addr :=
                   gen8_pt_dma_addr ppgtt @ [replicate GEN8_PDES_PER_PAGE 0]\<rparr>) (i + 1))
      else (None, ppgtt))"
  by pat_completeness auto
termination
  by (relation "measure (\<lambda>(env, ppgtt, i). num_pd_pages ppgtt - i)") auto

definition gen8_ppgtt_allocate_dma ::
  "gen8_env \<Rightarrow> i915_hw_ppgtt \<Rightarrow> error option \<times> i915_hw_ppgtt" where
  "gen8_ppgtt_allocate_dma env ppgtt =
     gen8_allocate_dma_loop env (ppgtt\<lparr>gen8_pt_dma_addr := []\<rparr>) 0"

definition gen8_ppgtt_allocate_page_directories ::
  "gen8_env \<Rightarrow> i915_hw_ppgtt \<Rightarrow> int \<Rightarrow> error option \<times> i915_hw_ppgtt" where
  "gen8_ppgtt_allocate_page_directories env ppgtt max_pdp =
     (if \<not> alloc_pd_pages env then (Some ENOMEM, ppgtt)
      else let ppgtt = ppgtt\<lparr>num_pd_pages := 2 ^ get_order env (max_pdp * 2 ^ PAGE_SHIFT)\<rparr>
           in if num_pd_pages ppgtt > GEN8_LEGACY_PDPS then (Some BUG, ppgtt) else (None, ppgtt))"

definition gen8_ppgtt_alloc ::
  "gen8_env \<Rightarrow> i915_hw_ppgtt \<Rightarrow> int \<Rightarrow> error option \<times> i915_hw_ppgtt" where
  "gen8_ppgtt_alloc env ppgtt max_pdp =
     (case gen8_ppgtt_allocate_page_directories env ppgtt max_pdp of
        (Some ret, ppgtt) \<Rightarrow> (Some ret, ppgtt)
      | (None, ppgtt) \<Rightarrow>
          (case gen8_ppgtt_allocate_page_tables env ppgtt max_pdp of
             (Some ret, ppgtt) \<Rightarrow> (Some ret, ppgtt)
           | (None, ppgtt) \<Rightarrow>
               gen8_ppgtt_allocate_dma env
                 (ppgtt\<lparr>num_pd_entries :=
                    nat ((max_pdp * int GEN8_PDES_PER_PAGE) mod 2 ^ 32)\<rparr>)))"

text \<open>
  The two mapping steps. \<open>pd_dma_addr\<close> is an array of the structure and
  \<open>gen8_pt_dma_addr[pd]\<close> one of the arrays allocated above; a store outside them is a
  \<open>FAULT\<close>.
\<close>

definition gen8_ppgtt_setup_page_directories ::
  "gen8_env \<Rightarrow> i915_hw_ppgtt \<Rightarrow> nat \<Rightarrow> error option \<times> i915_hw_ppgtt" where
  "gen8_ppgtt_setup_page_directories env ppgtt pd =
     (case pci_map_pd_page env pd of
        Inl ret \<Rightarrow> (Some ret, ppgtt)
      | Inr pd_addr \<Rightarrow>
          if pd < length (pd_dma_addr ppgtt)
          then (None, ppgtt\<lparr>pd_dma_addr := (pd_dma_addr ppgtt)[pd := pd_addr]\<rparr>)
          else (Some FAULT, ppgtt))"

definition gen8_ppgtt_setup_page_tables ::
  "gen8_env \<Rightarrow> i915_hw_ppgtt \<Rightarrow> nat \<Rightarrow> nat \<Rightarrow> error option \<times> i915_hw_ppgtt" where
  "gen8_ppgtt_setup_page_tables env ppgtt pd pt =
     (case pci_map_pt_page env pd pt of
        Inl ret \<Rightarrow> (Some ret, ppgtt)
      | Inr pt_addr \<Rightarrow>
          if pd < length (gen8_pt_dma_addr ppgtt)
          then (None, ppgtt\<lparr>gen8_pt_dma_addr :=
                  (gen8_pt_dma_addr ppgtt)[pd := (gen8_pt_dma_addr ppgtt ! pd)[pt := pt_addr]]\<rparr>)
          else (Some FAULT, ppgtt))"

function gen8_setup_pt_loop ::
  "gen8_env \<Rightarrow> i915_hw_ppgtt \<Rightarrow> nat \<Rightarrow> nat \<Rightarrow> error option \<times> i915_hw_ppgtt" where
  "gen8_setup_pt_loop env ppgtt i j =
     (if j < GEN8_PDES_PER_PAGE then
        (case gen8_ppgtt_setup_page_tables env ppgtt i j of
           (Some ret, ppgtt) \<Rightarrow> (Some ret, ppgtt)
         | (None, ppgtt) \<Rightarrow> gen8_setup_pt_loop env ppgtt i (j + 1))
      else (None, ppgtt))"
  by pat_completeness auto
termination
  by (relation "measure (\<lambda>(env, ppgtt, i, j). GEN8_PDES_PER_PAGE - j)") auto

function gen8_setup_loop ::
  "gen8_env \<Rightarrow> int \<Rightarrow> i915_hw_ppgtt \<Rightarrow> nat \<Rightarrow> error option \<times> i915_hw_ppgtt" where
  "gen8_setup_loop env max_pdp ppgtt i =
     (if int i < max_pdp then
        (case gen8_ppgtt_setup_page_directories env ppgtt i of
           (Some ret, ppgtt) \<Rightarrow> (Some ret, ppgtt)
         | (None, ppgtt) \<Rightarrow>
             (case gen8_setup_pt_loop env ppgtt i 0 of
                (Some ret, ppgtt) \<Rightarrow> (Some ret, ppgtt)
              | (None, ppgtt) \<Rightarrow> gen8_setup_loop env max_pdp ppgtt (i + 1)))
      else (None, ppgtt))"
  by pat_completeness auto
termination
  by (relation "measure (\<lambda>(env, max_pdp, ppgtt, i). nat max_pdp - i)") auto

definition gen8_write_pdes :: "pte_bits \<Rightarrow> int \<Rightarrow> i915_hw_ppgtt \<Rightarrow> i915_hw_ppgtt" where
  "gen8_write_pdes h max_pdp ppgtt =
     ppgtt\<lparr>gen8_pdes :=
       map (\<lambda>i. map (\<lambda>j. gen8_pde_encode h (gen8_pt_dma_addr ppgtt ! i ! j) I915_CACHE_LLC)
                  [0..<GEN8_PDES_PER_PAGE])
         [0..<nat max_pdp]\<rparr>"

text \<open>
  \<open>gen8_ppgtt_init\<close>. \<open>max_pdp\<close> is the \<open>int\<close> that \<open>DIV_ROUND_UP(size, 1 << 30)\<close>,
  computed in \<open>uint64_t\<close>, is truncated to.
\<close>

definition gen8_max_pdp :: "64 word \<Rightarrow> int" where
  "gen8_max_pdp sz = sint (ucast ((sz + (2 ^ 30 - 1)) div 2 ^ 30) :: 32 word)"

definition gen8_ppgtt_init ::
  "pte_bits \<Rightarrow> gen8_env \<Rightarrow> i915_hw_ppgtt \<Rightarrow> 64 word \<Rightarrow> error option \<times> i915_hw_ppgtt" where
  "gen8_ppgtt_init h env ppgtt sz =
     (let max_pdp = gen8_max_pdp sz
      in case gen8_ppgtt_alloc env ppgtt max_pdp of
        (Some ret, ppgtt) \<Rightarrow> (Some ret, ppgtt)
      | (None, ppgtt) \<Rightarrow>
          (case gen8_setup_loop env max_pdp ppgtt 0 of
             (Some ret, ppgtt) \<Rightarrow> (Some ret, ppgtt)
           | (None, ppgtt) \<Rightarrow>
               (let ppgtt = gen8_write_pdes h max_pdp ppgtt;
                    ppgtt = ppgtt\<lparr>
                      switch_mm := Some gen8_mm_switch,
                      total := of_nat (num_pd_entries ppgtt * GEN8_PTES_PER_PAGE * PAGE_SIZE)\<rparr>
                in case gen8_ppgtt_clear_range h ppgtt 0 (total ppgtt) True of
                     None \<Rightarrow> (Some FAULT, ppgtt)
                   | Some ppgtt \<Rightarrow> (None, ppgtt))))"

subsection \<open>Example environments\<close>

text \<open>
  A PPGTT structure as \<open>kzalloc\<close> and \<open>__hw_ppgtt_init\<close> leave it (all fields zero, the
  scratch page at \<open>0x1000\<close>), a state that holds no resource, and environments for the
  two allocators: on a Sandybridge every allocation and mapping succeeds in
  \<open>example_env6\<close>, and in \<open>failing_env6\<close> the fourth table page cannot be mapped;
  \<open>example_env8\<close> lets every allocation and mapping of a gen8 space succeed.
\<close>

definition zeroed_ppgtt :: i915_hw_ppgtt where
  "zeroed_ppgtt = \<lparr>
     scratch_addr = 0x1000,
     pte_encode = (\<lambda>addr level valid flags. (0, False)),
     pt_pages = [],
     gen8_pt_pages = [],
     num_pd_entries = 0,
     num_pd_pages = 0,
     pt_dma_addr = [],
     gen8_pt_dma_addr = [],
     pd_dma_addr = replicate GEN8_LEGACY_PDPS 0,
     total = 0,
     pd_offset = 0,
     switch_mm = None,
     gen6_pdes = [],
     gen8_pdes = [] \<rparr>"

definition fresh_world :: gen6_world where
  "fresh_world = \<lparr>
     hw = zeroed_ppgtt,
     node = None,
     pt_pages_live = False,
     pt_dma_addr_live = False,
     pages_held = 0,
     dma_mapped = [],
     stray_unmaps = 0,
     stray_frees = 0 \<rparr>"

definition example_env6 :: gen6_env where
  "example_env6 = \<lparr>
     IS_GEN6 = True,
     IS_HASWELL = False,
     IS_GEN7 = False,
     gtt_base_pte_encode = snb_pte_encode i915_hdr,
     drm_mm_initialized = True,
     drm_mm_insert_node = (\<lambda>k. Inr 0x7FE00000),
     i915_gem_evict_something = None,
     kcalloc_pt_pages = True,
     alloc_page = (\<lambda>i. Some (\<lambda>e. 0)),
     kcalloc_pt_dma_addr = True,
     pci_map_page = (\<lambda>i. Some (0x100000 + of_nat i * 0x1000)) \<rparr>"

definition failing_env6 :: gen6_env where
  "failing_env6 =
     example_env6\<lparr>pci_map_page :=
       (\<lambda>i. if i < 3 then Some (0x100000 + of_nat i * 0x1000) else None)\<rparr>"

definition example_env8 :: gen8_env where
  "example_env8 = \<lparr>
     get_order = (\<lambda>n. 0),
     alloc_pd_pages = True,
     kcalloc_gen8_pt_pages = (\<lambda>i. True),
     alloc_gen8_page = (\<lambda>i j. Some (\<lambda>e. 0)),
     kcalloc_gen8_pt_dma_addr = (\<lambda>i. True),
     pci_map_pd_page = (\<lambda>i. Inr (0x200000 + of_nat i * 0x1000)),
     pci_map_pt_page = (\<lambda>i j. Inr (0x400000 + of_nat (i * 512 + j) * 0x1000)) \<rparr>"

section \<open>The atomic modeset helper\<close>

subsection \<open>Device, driver and transaction\<close>

text \<open>
  Objects are identified by their index (\<open>drm_crtc_index\<close>, the position in the
  connector and plane lists, the encoder's id); a display mode is an opaque value. The
  three state structures carry the fields the helper reads and writes.
\<close>

type_synonym display_mode = nat

record drm_connector_state =
  crtc :: "nat option"
  best_encoder :: "nat option"

record drm_crtc_state =
  mode :: display_mode
  adjusted_mode :: display_mode
  enable :: bool
  mode_changed :: bool
  planes_changed :: bool
  last_vblank_count :: nat

record drm_plane_state =
  plane_state_crtc :: "nat option"
  fb :: "nat option"
  fence :: "nat option"
  src_x :: "32 word"
  src_y :: "32 word"

text \<open>
  The device: the current state of every object (\<open>cur_crtc_state\<close> is \<open>crtc->state\<close> by
  crtc index, likewise \<open>connector->state\<close> and \<open>plane->state\<close>), the legacy fields and links the commit updates, and the calls
  made into the hardware so far.
\<close>

datatype hw_event =
    PrepareFb nat nat | CleanupFb nat nat | FenceWait nat
  | BridgeDisable nat | EncoderPrepare nat | EncoderDisable nat | EncoderDpmsOff nat
  | BridgePostDisable nat | CrtcPrepare nat | CrtcDisable nat | CrtcDpmsOff nat
  | CrtcModeSetNofb nat | EncoderModeSet nat | BridgeModeSet nat
  | CrtcAtomicBegin nat | PlaneAtomicUpdate nat | CrtcAtomicFlush nat
  | CrtcCommit nat | BridgePreEnable nat | EncoderCommit nat | BridgeEnable nat
  | VblankWait nat | VblankPut nat

record drm_device =
  cur_crtc_state :: "drm_crtc_state list"
  cur_connector_state :: "drm_connector_state list"
  cur_plane_state :: "drm_plane_state list"
  plane_crtc :: "nat option list"
  connector_encoder :: "nat option list"
  encoder_legacy_crtc :: "nat \<Rightarrow> nat option"
  crtc_mode :: "display_mode list"
  crtc_enabled :: "bool list"
  crtc_x :: "32 word list"
  crtc_y :: "32 word list"
  crtc_primary :: "nat list"
  hw_log :: "hw_event list"

text \<open>
  The driver: the hooks behind \<open>helper_private\<close> and \<open>funcs\<close>, and what the lock and
  allocation calls of the transaction answer. An optional hook is an \<open>option\<close> or a
  flag saying that it is set. A mode-fixup hook returns its verdict and the adjusted mode
  it leaves.
\<close>

record drm_driver =
  connector_best_encoder :: "nat \<Rightarrow> nat option"
  encoder_bridge :: "nat \<Rightarrow> bool"
  bridge_mode_fixup :: "nat \<Rightarrow> (display_mode \<Rightarrow> display_mode \<Rightarrow> bool \<times> display_mode) option"
  encoder_mode_fixup :: "nat \<Rightarrow> display_mode \<Rightarrow> display_mode \<Rightarrow> bool \<times> display_mode"
  crtc_mode_fixup :: "nat \<Rightarrow> display_mode \<Rightarrow> display_mode \<Rightarrow> bool \<times> display_mode"
  plane_atomic_check :: "nat \<Rightarrow> (drm_plane_state \<Rightarrow> error option) option"
  crtc_atomic_check :: "nat \<Rightarrow> (drm_crtc_state \<Rightarrow> error option) option"
  encoder_has_disable :: "nat \<Rightarrow> bool"
  crtc_has_disable :: "nat \<Rightarrow> bool"
  bridge_has_mode_set :: "nat \<Rightarrow> bool"
  crtc_has_atomic_begin :: "nat \<Rightarrow> bool"
  plane_has_atomic_update :: "nat \<Rightarrow> bool"
  crtc_has_atomic_flush :: "nat \<Rightarrow> bool"
  plane_prepare_fb :: "nat \<Rightarrow> (nat \<Rightarrow> error option) option"
  plane_has_cleanup_fb :: "nat \<Rightarrow> bool"
  drm_crtc_vblank_get :: "nat \<Rightarrow> bool"
  drm_vblank_count :: "nat \<Rightarrow> nat"
  modeset_lock_crtc :: "nat \<Rightarrow> error option"
  modeset_lock_connection :: "error option"
  kmemdup_ok :: bool

text \<open>
  The transaction (\<open>struct drm_atomic_state\<close>): one slot per object, \<open>None\<close> while the
  object is not part of the transaction (\<open>state->crtcs[i]\<close> and \<open>state->crtc_states[i]\<close>
  are set together). The arrays have \<open>num_crtc\<close>, \<open>num_connector\<close> and
  \<open>num_total_plane\<close> slots; the loops below read these counts off the arrays.
\<close>

record drm_atomic_state =
  crtc_states :: "drm_crtc_state option list"
  connector_states :: "drm_connector_state option list"
  plane_states :: "drm_plane_state option list"

subsection \<open>Sequencing\<close>

text \<open>
  A step returns the error (\<open>Inl\<close>) or the transaction it leaves (\<open>Inr\<close>).
  \<open>for_each\<close> is a \<open>for\<close> loop over the given indices that returns at the first
  error.
\<close>

definition bind_err :: "error + 'a \<Rightarrow> ('a \<Rightarrow> error + 'b) \<Rightarrow> error + 'b" where
  "bind_err m f = (case m of Inl e \<Rightarrow> Inl e | Inr x \<Rightarrow> f x)"

fun for_each :: "nat list \<Rightarrow> (nat \<Rightarrow> 's \<Rightarrow> error + 's) \<Rightarrow> 's \<Rightarrow> error + 's" where
  "for_each [] body s = Inr s"
| "for_each (i # is) body s = bind_err (body i s) (for_each is body)"

text \<open>
  Writing through \<open>state->crtc_states[idx]\<close> or \<open>state->connector_states[idx]\<close>: a
  \<open>NULL\<close> slot or a slot outside the array is a \<open>FAULT\<close>.
\<close>

definition with_crtc_state ::
  "nat \<Rightarrow> (drm_crtc_state \<Rightarrow> drm_crtc_state) \<Rightarrow> drm_atomic_state \<Rightarrow> error + drm_atomic_state" where
  "with_crtc_state idx f state =
     (if idx < length (crtc_states state) then
        (case crtc_states state ! idx of
           None \<Rightarrow> Inl FAULT
         | Some crtc_state \<Rightarrow>
             Inr (state\<lparr>crtc_states := (crtc_states state)[idx := Some (f crtc_state)]\<rparr>))
      else Inl FAULT)"

definition with_connector_state ::
  "nat \<Rightarrow> (drm_connector_state \<Rightarrow> drm_connector_state) \<Rightarrow> drm_atomic_state \<Rightarrow>
   error + drm_atomic_state" where
  "with_connector_state idx f state =
     (if idx < length (connector_states state) then
        (case connector_states state ! idx of
           None \<Rightarrow> Inl FAULT
         | Some connector_state \<Rightarrow>
             Inr (state\<lparr>connector_states :=
                    (connector_states state)[idx := Some (f connector_state)]\<rparr>))
      else Inl FAULT)"

definition set_mode_changed :: "nat \<Rightarrow> drm_atomic_state \<Rightarrow> error + drm_atomic_state" where
  "set_mode_changed idx state = with_crtc_state idx (\<lambda>s. s\<lparr>mode_changed := True\<rparr>) state"

subsection \<open>Taking objects into the transaction\<close>

text \<open>\<open>drm_atomic_helper_crtc_duplicate_state\<close>, the default duplicate hook.\<close>

definition drm_atomic_helper_crtc_duplicate_state :: "drm_crtc_state \<Rightarrow> drm_crtc_state" where
  "drm_atomic_helper_crtc_duplicate_state s = s\<lparr>mode_changed := False, planes_changed := False\<rparr>"

text \<open>
  Modelled from the spec: \<open>drm_atomic_get_crtc_state\<close>,
  \<open>drm_atomic_get_connector_state\<close>, \<open>drm_atomic_set_crtc_for_connector\<close>,
  \<open>drm_atomic_add_affected_connectors\<close> and \<open>drm_atomic_connectors_for_crtc\<close> live in
  \<open>drm_atomic.c\<close>, which is not part of the sources at hand. By the spec a transaction
  owns proposed states indexed by object, a state is duplicated from the object's
  current state when the object enters the transaction, lock acquisition may abort with
  a deadlock signal, the check pulls into the transaction all connectors currently
  connected to a crtc and counts the connectors routed to it. So: getting a state
  returns the slot if it is filled, and otherwise takes the lock, duplicates the current
  state into the slot, and fails with the lock's error or with \<open>-ENOMEM\<close>.
\<close>

definition drm_atomic_get_crtc_state ::
  "drm_driver \<Rightarrow> drm_device \<Rightarrow> drm_atomic_state \<Rightarrow> nat \<Rightarrow> error + drm_atomic_state" where
  "drm_atomic_get_crtc_state drv dev state idx =
     (if idx < length (crtc_states state) \<and> idx < length (cur_crtc_state dev) then
        (case crtc_states state ! idx of
           Some crtc_state \<Rightarrow> Inr state
         | None \<Rightarrow>
             (case modeset_lock_crtc drv idx of
                Some ret \<Rightarrow> Inl ret
              | None \<Rightarrow>
                  if \<not> kmemdup_ok drv then Inl ENOMEM
                  else Inr (state\<lparr>crtc_states := (crtc_states state)
                              [idx := Some (drm_atomic_helper_crtc_duplicate_state
                                              (cur_crtc_state dev ! idx))]\<rparr>)))
      else Inl FAULT)"

definition drm_atomic_get_connector_state ::
  "drm_driver \<Rightarrow> drm_device \<Rightarrow> drm_atomic_state \<Rightarrow> nat \<Rightarrow> error + drm_atomic_state" where
  "drm_atomic_get_connector_state drv dev state idx =
     (if idx < length (connector_states state) \<and> idx < length (cur_connector_state dev) then
        (case connector_states state ! idx of
           Some connector_state \<Rightarrow> Inr state
         | None \<Rightarrow>
             (case modeset_lock_connection drv of
                Some ret \<Rightarrow> Inl ret
              | None \<Rightarrow>
                  if \<not> kmemdup_ok drv then Inl ENOMEM
                  else Inr (state\<lparr>connector_states := (connector_states state)
                              [idx := Some (cur_connector_state dev ! idx)]\<rparr>)))
      else Inl FAULT)"

definition drm_atomic_set_crtc_for_connector ::
  "drm_driver \<Rightarrow> drm_device \<Rightarrow> drm_atomic_state \<Rightarrow> nat \<Rightarrow> nat option \<Rightarrow>
   error + drm_atomic_state" where
  "drm_atomic_set_crtc_for_connector drv dev state conn_idx new_crtc =
     bind_err (case new_crtc of
                 None \<Rightarrow> Inr state
               | Some idx \<Rightarrow> drm_atomic_get_crtc_state drv dev state idx)
       (with_connector_state conn_idx (\<lambda>s. s\<lparr>crtc := new_crtc\<rparr>))"

definition drm_atomic_add_affected_connectors ::
  "drm_driver \<Rightarrow> drm_device \<Rightarrow> drm_atomic_state \<Rightarrow> nat \<Rightarrow> error + drm_atomic_state" where
  "drm_atomic_add_affected_connectors drv dev state idx =
     (case modeset_lock_connection drv of
        Some ret \<Rightarrow> Inl ret
      | None \<Rightarrow>
          for_each [0..<length (cur_connector_state dev)]
            (\<lambda>c state. if crtc (cur_connector_state dev ! c) \<noteq> Some idx then Inr state
                        else drm_atomic_get_connector_state drv dev state c)
            state)"

definition drm_atomic_connectors_for_crtc :: "drm_atomic_state \<Rightarrow> nat \<Rightarrow> nat" where
  "drm_atomic_connectors_for_crtc state idx =
     length (filter (\<lambda>s. case s of None \<Rightarrow> False | Some conn_state \<Rightarrow> crtc conn_state = Some idx)
               (connector_states state))"

subsection \<open>Routing\<close>

definition get_current_crtc_for_encoder :: "drm_device \<Rightarrow> nat \<Rightarrow> nat option" where
  "get_current_crtc_for_encoder dev encoder =
     (case find (\<lambda>s. best_encoder s = Some encoder) (cur_connector_state dev) of
        None \<Rightarrow> None
      | Some s \<Rightarrow> crtc s)"

definition steal_encoder ::
  "drm_driver \<Rightarrow> drm_device \<Rightarrow> drm_atomic_state \<Rightarrow> nat \<Rightarrow> nat \<Rightarrow> error + drm_atomic_state" where
  "steal_encoder drv dev state encoder encoder_crtc =
     bind_err (drm_atomic_get_crtc_state drv dev state encoder_crtc) (\<lambda>state.
     bind_err (set_mode_changed encoder_crtc state) (\<lambda>state.
       for_each [0..<length (cur_connector_state dev)]
         (\<lambda>c state.
            if best_encoder (cur_connector_state dev ! c) \<noteq> Some encoder then Inr state
            else
              bind_err (drm_atomic_get_connector_state drv dev state c) (\<lambda>state.
              bind_err (drm_atomic_set_crtc_for_connector drv dev state c None)
                (with_connector_state c (\<lambda>s. s\<lparr>best_encoder := None\<rparr>))))
         state))"

text \<open>
  \<open>update_connector_routing\<close>. \<open>connector_state\<close> is a pointer to the slot, so after
  \<open>steal_encoder\<close> the slot is read again.
\<close>

definition update_connector_routing ::
  "drm_driver \<Rightarrow> drm_device \<Rightarrow> drm_atomic_state \<Rightarrow> nat \<Rightarrow> error + drm_atomic_state" where
  "update_connector_routing drv dev state conn_idx =
     (case connector_states state ! conn_idx of
        None \<Rightarrow> Inr state
      | Some connector_state0 \<Rightarrow>
          if \<not> conn_idx < length (cur_connector_state dev) then Inl FAULT
          else
            bind_err
              (if crtc (cur_connector_state dev ! conn_idx) \<noteq> crtc connector_state0 then
                 bind_err
                   (case crtc (cur_connector_state dev ! conn_idx) of
                      None \<Rightarrow> Inr state
                    | Some idx \<Rightarrow> set_mode_changed idx state)
                   (\<lambda>state. case crtc connector_state0 of
                      None \<Rightarrow> Inr state
                    | Some idx \<Rightarrow> set_mode_changed idx state)
               else Inr state)
              (\<lambda>state.
                 case crtc connector_state0 of
                   None \<Rightarrow> with_connector_state conn_idx (\<lambda>s. s\<lparr>best_encoder := None\<rparr>) state
                 | Some target \<Rightarrow>
                     (case connector_best_encoder drv conn_idx of
                        None \<Rightarrow> Inl EINVAL
                      | Some new_encoder \<Rightarrow>
                          if Some new_encoder = best_encoder connector_state0 then Inr state
                          else
                            bind_err
                              (case get_current_crtc_for_encoder dev new_encoder of
                                 None \<Rightarrow> Inr state
                               | Some encoder_crtc \<Rightarrow>
                                   steal_encoder drv dev state new_encoder encoder_crtc)
                              (\<lambda>state.
                                 bind_err
                                   (with_connector_state conn_idx
                                      (\<lambda>s. s\<lparr>best_encoder := Some new_encoder\<rparr>) state)
                                   (\<lambda>state.
                                      case connector_states state ! conn_idx of
                                        None \<Rightarrow> Inl FAULT
                                      | Some s \<Rightarrow>
                                          (case crtc s of
                                             None \<Rightarrow> Inl FAULT
                                           | Some idx \<Rightarrow> set_mode_changed idx state))))))"

subsection \<open>Mode fixup\<close>

definition copy_mode :: "drm_crtc_state option \<Rightarrow> drm_crtc_state option" where
  "copy_mode slot =
     (case slot of
        None \<Rightarrow> None
      | Some crtc_state \<Rightarrow>
          if mode_changed crtc_state then Some (crtc_state\<lparr>adjusted_mode := mode crtc_state\<rparr>)
          else Some crtc_state)"

definition run_fixup ::
  "(display_mode \<Rightarrow> display_mode \<Rightarrow> bool \<times> display_mode) \<Rightarrow> nat \<Rightarrow> drm_atomic_state \<Rightarrow>
   error + drm_atomic_state" where
  "run_fixup hook idx state =
     (if idx < length (crtc_states state) then
        (case crtc_states state ! idx of
           None \<Rightarrow> Inl FAULT
         | Some crtc_state \<Rightarrow>
             (case hook (mode crtc_state) (adjusted_mode crtc_state) of
                (ret, adjusted) \<Rightarrow>
                  if \<not> ret then Inl EINVAL
                  else Inr (state\<lparr>crtc_states := (crtc_states state)
                              [idx := Some (crtc_state\<lparr>adjusted_mode := adjusted\<rparr>)]\<rparr>)))
      else Inl FAULT)"

definition encoder_fixup ::
  "drm_driver \<Rightarrow> nat \<Rightarrow> drm_atomic_state \<Rightarrow> error + drm_atomic_state" where
  "encoder_fixup drv i state =
     (case connector_states state ! i of
        None \<Rightarrow> Inr state
      | Some conn_state \<Rightarrow>
          (case (crtc conn_state, best_encoder conn_state) of
             (Some idx, Some encoder) \<Rightarrow>
               bind_err
                 (case (if encoder_bridge drv encoder then bridge_mode_fixup drv encoder else None) of
                    None \<Rightarrow> Inr state
                  | Some hook \<Rightarrow> run_fixup hook idx state)
                 (run_fixup (encoder_mode_fixup drv encoder) idx)
           | _ \<Rightarrow> Inr state))"

definition crtc_fixup :: "drm_driver \<Rightarrow> nat \<Rightarrow> drm_atomic_state \<Rightarrow> error + drm_atomic_state" where
  "crtc_fixup drv i state =
     (case crtc_states state ! i of
        None \<Rightarrow> Inr state
      | Some crtc_state \<Rightarrow>
          if \<not> mode_changed crtc_state then Inr state
          else run_fixup (crtc_mode_fixup drv i) i state)"

definition mode_fixup :: "drm_driver \<Rightarrow> drm_atomic_state \<Rightarrow> error + drm_atomic_state" where
  "mode_fixup drv state =
     bind_err (Inr (state\<lparr>crtc_states := map copy_mode (crtc_states state)\<rparr>)) (\<lambda>state.
     bind_err (for_each [0..<length (connector_states state)] (encoder_fixup drv) state) (\<lambda>state.
       for_each [0..<length (crtc_states state)] (crtc_fixup drv) state))"

subsection \<open>The check\<close>

definition mark_mode_changed :: "drm_device \<Rightarrow> nat \<Rightarrow> drm_atomic_state \<Rightarrow> error + drm_atomic_state" where
  "mark_mode_changed dev i state =
     (case crtc_states state ! i of
        None \<Rightarrow> Inr state
      | Some crtc_state \<Rightarrow>
          if \<not> i < length (cur_crtc_state dev) then Inl FAULT
          else if mode (cur_crtc_state dev ! i) \<noteq> mode crtc_state \<or>
                  enable (cur_crtc_state dev ! i) \<noteq> enable crtc_state
          then set_mode_changed i state
          else Inr state)"

definition check_connectors ::
  "drm_driver \<Rightarrow> drm_device \<Rightarrow> nat \<Rightarrow> drm_atomic_state \<Rightarrow> error + drm_atomic_state" where
  "check_connectors drv dev i state =
     (case crtc_states state ! i of
        None \<Rightarrow> Inr state
      | Some crtc_state \<Rightarrow>
          if \<not> mode_changed crtc_state then Inr state
          else
            bind_err (drm_atomic_add_affected_connectors drv dev state i) (\<lambda>state.
              if enable crtc_state \<noteq> (drm_atomic_connectors_for_crtc state i \<noteq> 0)
              then Inl EINVAL
              else Inr state))"

definition drm_atomic_helper_check_prepare ::
  "drm_driver \<Rightarrow> drm_device \<Rightarrow> drm_atomic_state \<Rightarrow> error + drm_atomic_state" where
  "drm_atomic_helper_check_prepare drv dev state =
     bind_err (for_each [0..<length (crtc_states state)] (mark_mode_changed dev) state) (\<lambda>state.
     bind_err (for_each [0..<length (connector_states state)]
                 (\<lambda>i state. update_connector_routing drv dev state i) state) (\<lambda>state.
     bind_err (for_each [0..<length (crtc_states state)] (check_connectors drv dev) state)
       (mode_fixup drv)))"

definition set_planes_changed :: "nat option \<Rightarrow> drm_atomic_state \<Rightarrow> drm_atomic_state option" where
  "set_planes_changed idx state =
     (case idx of
        None \<Rightarrow> None
      | Some i \<Rightarrow>
          if i < length (crtc_states state) then
            (case crtc_states state ! i of
               None \<Rightarrow> None
             | Some crtc_state \<Rightarrow>
                 Some (state\<lparr>crtc_states := (crtc_states state)
                         [i := Some (crtc_state\<lparr>planes_changed := True\<rparr>)]\<rparr>))
          else None)"

text \<open>
  \<open>drm_atomic_helper_plane_changed\<close>. A slot that is \<open>NULL\<close> (or missing) triggers the
  \<open>WARN_ON\<close> and the function returns; \<open>drm_crtc_index\<close> of a \<open>NULL\<close> \<open>plane->crtc\<close> is a
  \<open>FAULT\<close>.
\<close>

definition drm_atomic_helper_plane_changed ::
  "drm_device \<Rightarrow> drm_atomic_state \<Rightarrow> drm_plane_state \<Rightarrow> nat \<Rightarrow> error + drm_atomic_state" where
  "drm_atomic_helper_plane_changed dev state plane_state plane =
     (if \<not> plane < length (cur_plane_state dev) \<or> \<not> plane < length (plane_crtc dev) then Inl FAULT
      else
        case (if plane_state_crtc (cur_plane_state dev ! plane) \<noteq> None then
                (case plane_crtc dev ! plane of
                   None \<Rightarrow> Inl FAULT
                 | Some idx \<Rightarrow> Inr (set_planes_changed (Some idx) state))
              else Inr (Some state)) of
          Inl e \<Rightarrow> Inl e
        | Inr None \<Rightarrow> Inr state
        | Inr (Some state) \<Rightarrow>
            if plane_state_crtc plane_state \<noteq> None then
              (case set_planes_changed (plane_state_crtc plane_state) state of
                 None \<Rightarrow> Inr state
               | Some state \<Rightarrow> Inr state)
            else Inr state)"

definition check_plane ::
  "drm_driver \<Rightarrow> drm_device \<Rightarrow> nat \<Rightarrow> drm_atomic_state \<Rightarrow> error + drm_atomic_state" where
  "check_plane drv dev i state =
     (case plane_states state ! i of
        None \<Rightarrow> Inr state
      | Some plane_state \<Rightarrow>
          bind_err (drm_atomic_helper_plane_changed dev state plane_state i) (\<lambda>state.
            case plane_atomic_check drv i of
              None \<Rightarrow> Inr state
            | Some atomic_check \<Rightarrow>
                (case atomic_check plane_state of
                   Some ret \<Rightarrow> Inl ret
                 | None \<Rightarrow> Inr state)))"

definition check_crtc :: "drm_driver \<Rightarrow> nat \<Rightarrow> drm_atomic_state \<Rightarrow> error + drm_atomic_state" where
  "check_crtc drv i state =
     (case crtc_states state ! i of
        None \<Rightarrow> Inr state
      | Some crtc_state \<Rightarrow>
          (case crtc_atomic_check drv i of
             None \<Rightarrow> Inr state
           | Some atomic_check \<Rightarrow>
               (case atomic_check crtc_state of
                  Some ret \<Rightarrow> Inl ret
                | None \<Rightarrow> Inr state)))"

definition drm_atomic_helper_check ::
  "drm_driver \<Rightarrow> drm_device \<Rightarrow> drm_atomic_state \<Rightarrow> error + drm_atomic_state" where
  "drm_atomic_helper_check drv dev state =
     bind_err (drm_atomic_helper_check_prepare drv dev state) (\<lambda>state.
     bind_err (for_each [0..<length (plane_states state)] (check_plane drv dev) state)
       (for_each [0..<length (crtc_states state)] (check_crtc drv)))"

subsection \<open>The commit\<close>

text \<open>
  The steps of the commit act on the device and on the transaction. A call into the
  hardware is recorded in \<open>hw_log\<close>. The transaction's arrays have the device's
  object counts, so an index of a filled slot is an index of the device's lists.
\<close>

definition log_hw :: "hw_event list \<Rightarrow> drm_device \<Rightarrow> drm_device" where
  "log_hw events dev = dev\<lparr>hw_log := hw_log dev @ events\<rparr>"

text \<open>
  \<open>drm_atomic_helper_prepare_planes\<close>: the loop returns the device, or the error with
  the index it failed at; on failure the planes below that index are cleaned up in
  descending order.
\<close>

fun prepare_planes_loop ::
  "drm_driver \<Rightarrow> drm_atomic_state \<Rightarrow> nat list \<Rightarrow> drm_device \<Rightarrow> (error \<times> nat \<times> drm_device) + drm_device" where
  "prepare_planes_loop drv state [] dev = Inr dev"
| "prepare_planes_loop drv state (i # is) dev =
     (case plane_states state ! i of
        None \<Rightarrow> prepare_planes_loop drv state is dev
      | Some s \<Rightarrow>
          (case (fb s, plane_prepare_fb drv i) of
             (Some f, Some prepare_fb) \<Rightarrow>
               (case prepare_fb f of
                  Some ret \<Rightarrow> Inl (ret, i, log_hw [PrepareFb i f] dev)
                | None \<Rightarrow> prepare_planes_loop drv state is (log_hw [PrepareFb i f] dev))
           | _ \<Rightarrow> prepare_planes_loop drv state is dev))"

definition cleanup_plane :: "drm_driver \<Rightarrow> drm_atomic_state \<Rightarrow> nat \<Rightarrow> drm_device \<Rightarrow> drm_device" where
  "cleanup_plane drv state i dev =
     (case plane_states state ! i of
        None \<Rightarrow> dev
      | Some s \<Rightarrow>
          (case fb s of
             Some f \<Rightarrow> if plane_has_cleanup_fb drv i then log_hw [CleanupFb i f] dev else dev
           | None \<Rightarrow> dev))"

definition drm_atomic_helper_prepare_planes ::
  "drm_driver \<Rightarrow> drm_device \<Rightarrow> drm_atomic_state \<Rightarrow> error option \<times> drm_device" where
  "drm_atomic_helper_prepare_planes drv dev state =
     (case prepare_planes_loop drv state [0..<length (plane_states state)] dev of
        Inr dev \<Rightarrow> (None, dev)
      | Inl (ret, i, dev) \<Rightarrow> (Some ret, fold (cleanup_plane drv state) (rev [0..<i]) dev))"

definition drm_atomic_helper_cleanup_planes ::
  "drm_driver \<Rightarrow> drm_device \<Rightarrow> drm_atomic_state \<Rightarrow> drm_device" where
  "drm_atomic_helper_cleanup_planes drv dev old_state =
     fold (cleanup_plane drv old_state) [0..<length (plane_states old_state)] dev"

text \<open>
  \<open>drm_atomic_helper_swap_state\<close>: for every object of the transaction the staged
  state and the current state change places.
\<close>

definition swap_connector :: "nat \<Rightarrow> drm_device \<times> drm_atomic_state \<Rightarrow> drm_device \<times> drm_atomic_state" where
  "swap_connector i w =
     (case w of (dev, state) \<Rightarrow>
        (case connector_states state ! i of
           None \<Rightarrow> (dev, state)
         | Some s \<Rightarrow>
             (dev\<lparr>cur_connector_state := (cur_connector_state dev)[i := s]\<rparr>,
              state\<lparr>connector_states :=
                (connector_states state)[i := Some (cur_connector_state dev ! i)]\<rparr>)))"

definition swap_crtc :: "nat \<Rightarrow> drm_device \<times> drm_atomic_state \<Rightarrow> drm_device \<times> drm_atomic_state" where
  "swap_crtc i w =
     (case w of (dev, state) \<Rightarrow>
        (case crtc_states state ! i of
           None \<Rightarrow> (dev, state)
         | Some s \<Rightarrow>
             (dev\<lparr>cur_crtc_state := (cur_crtc_state dev)[i := s]\<rparr>,
              state\<lparr>crtc_states := (crtc_states state)[i := Some (cur_crtc_state dev ! i)]\<rparr>)))"

definition swap_plane :: "nat \<Rightarrow> drm_device \<times> drm_atomic_state \<Rightarrow> drm_device \<times> drm_atomic_state" where
  "swap_plane i w =
     (case w of (dev, state) \<Rightarrow>
        (case plane_states state ! i of
           None \<Rightarrow> (dev, state)
         | Some s \<Rightarrow>
             (dev\<lparr>cur_plane_state := (cur_plane_state dev)[i := s]\<rparr>,
              state\<lparr>plane_states := (plane_states state)[i := Some (cur_plane_state dev ! i)]\<rparr>)))"

definition drm_atomic_helper_swap_state ::
  "drm_device \<Rightarrow> drm_atomic_state \<Rightarrow> drm_device \<times> drm_atomic_state" where
  "drm_atomic_helper_swap_state dev state =
     fold swap_plane [0..<length (plane_states state)]
       (fold swap_crtc [0..<length (crtc_states state)]
          (fold swap_connector [0..<length (connector_states state)] (dev, state)))"

text \<open>\<open>wait_for_fences\<close>\<close>

definition wait_for_fence :: "drm_atomic_state \<Rightarrow> nat \<Rightarrow> drm_device \<Rightarrow> drm_device" where
  "wait_for_fence state i dev =
     (case plane_states state ! i of
        None \<Rightarrow> dev
      | Some s \<Rightarrow>
          (case fence (cur_plane_state dev ! i) of
             None \<Rightarrow> dev
           | Some f \<Rightarrow>
               log_hw [FenceWait i]
                 (dev\<lparr>cur_plane_state :=
                    (cur_plane_state dev)[i := (cur_plane_state dev ! i)\<lparr>fence := None\<rparr>]\<rparr>)))"

definition wait_for_fences :: "drm_device \<Rightarrow> drm_atomic_state \<Rightarrow> drm_device" where
  "wait_for_fences dev state = fold (wait_for_fence state) [0..<length (plane_states state)] dev"

text \<open>\<open>disable_outputs\<close>, \<open>set_routing_links\<close> and \<open>crtc_set_mode\<close>\<close>

definition disable_encoder :: "drm_driver \<Rightarrow> drm_atomic_state \<Rightarrow> nat \<Rightarrow> drm_device \<Rightarrow> drm_device" where
  "disable_encoder drv old_state i dev =
     (case connector_states old_state ! i of
        None \<Rightarrow> dev
      | Some old_conn_state \<Rightarrow>
          (case (crtc old_conn_state, best_encoder (cur_connector_state dev ! i)) of
             (Some c, Some e) \<Rightarrow>
               log_hw
                 ((if encoder_bridge drv e then [BridgeDisable e] else []) @
                  [if crtc (cur_connector_state dev ! i) \<noteq> None then EncoderPrepare e
                   else if encoder_has_disable drv e then EncoderDisable e
                   else EncoderDpmsOff e] @
                  (if encoder_bridge drv e then [BridgePostDisable e] else []))
                 dev
           | _ \<Rightarrow> dev))"

definition disable_crtc :: "drm_driver \<Rightarrow> drm_atomic_state \<Rightarrow> nat \<Rightarrow> drm_device \<Rightarrow> drm_device" where
  "disable_crtc drv old_state i dev =
     (case crtc_states old_state ! i of
        None \<Rightarrow> dev
      | Some s \<Rightarrow>
          if \<not> mode_changed (cur_crtc_state dev ! i) then dev
          else log_hw
                 [if enable (cur_crtc_state dev ! i) then CrtcPrepare i
                  else if crtc_has_disable drv i then CrtcDisable i
                  else CrtcDpmsOff i]
                 dev)"

definition disable_outputs :: "drm_driver \<Rightarrow> drm_device \<Rightarrow> drm_atomic_state \<Rightarrow> drm_device" where
  "disable_outputs drv dev old_state =
     fold (disable_crtc drv old_state) [0..<length (crtc_states old_state)]
       (fold (disable_encoder drv old_state) [0..<length (connector_states old_state)] dev)"

definition clear_link :: "drm_atomic_state \<Rightarrow> nat \<Rightarrow> drm_device \<Rightarrow> drm_device" where
  "clear_link old_state i dev =
     (case connector_states old_state ! i of
        None \<Rightarrow> dev
      | Some s \<Rightarrow>
          (case connector_encoder dev ! i of
             None \<Rightarrow> dev
           | Some e \<Rightarrow>
               dev\<lparr>encoder_legacy_crtc := (encoder_legacy_crtc dev)(e := None),
                   connector_encoder := (connector_encoder dev)[i := None]\<rparr>))"

definition set_link :: "drm_atomic_state \<Rightarrow> nat \<Rightarrow> drm_device \<Rightarrow> drm_device" where
  "set_link old_state i dev =
     (case connector_states old_state ! i of
        None \<Rightarrow> dev
      | Some s \<Rightarrow>
          (case (crtc (cur_connector_state dev ! i), best_encoder (cur_connector_state dev ! i)) of
             (Some c, Some e) \<Rightarrow>
               dev\<lparr>connector_encoder := (connector_encoder dev)[i := Some e],
                   encoder_legacy_crtc := (encoder_legacy_crtc dev)(e := Some c)\<rparr>
           | _ \<Rightarrow> dev))"

definition set_legacy_crtc :: "drm_atomic_state \<Rightarrow> nat \<Rightarrow> drm_device \<Rightarrow> drm_device" where
  "set_legacy_crtc old_state i dev =
     (case crtc_states old_state ! i of
        None \<Rightarrow> dev
      | Some s \<Rightarrow>
          dev\<lparr>crtc_mode := (crtc_mode dev)[i := mode (cur_crtc_state dev ! i)],
              crtc_enabled := (crtc_enabled dev)[i := enable (cur_crtc_state dev ! i)],
              crtc_x := (crtc_x dev)[i := drop_bit 16 (src_x (cur_plane_state dev ! (crtc_primary dev ! i)))],
              crtc_y := (crtc_y dev)[i := drop_bit 16 (src_y (cur_plane_state dev ! (crtc_primary dev ! i)))]\<rparr>)"

definition set_routing_links :: "drm_device \<Rightarrow> drm_atomic_state \<Rightarrow> drm_device" where
  "set_routing_links dev old_state =
     fold (set_legacy_crtc old_state) [0..<length (crtc_states old_state)]
       (fold (set_link old_state) [0..<length (connector_states old_state)]
          (fold (clear_link old_state) [0..<length (connector_states old_state)] dev))"

definition crtc_mode_set :: "drm_atomic_state \<Rightarrow> nat \<Rightarrow> drm_device \<Rightarrow> drm_device" where
  "crtc_mode_set old_state i dev =
     (case crtc_states old_state ! i of
        None \<Rightarrow> dev
      | Some s \<Rightarrow>
          if mode_changed (cur_crtc_state dev ! i) \<and> enable (cur_crtc_state dev ! i)
          then log_hw [CrtcModeSetNofb i] dev else dev)"

definition encoder_mode_set :: "drm_driver \<Rightarrow> drm_atomic_state \<Rightarrow> nat \<Rightarrow> drm_device \<Rightarrow> drm_device" where
  "encoder_mode_set drv old_state i dev =
     (case connector_states old_state ! i of
        None \<Rightarrow> dev
      | Some s \<Rightarrow>
          (case best_encoder (cur_connector_state dev ! i) of
             None \<Rightarrow> dev
           | Some e \<Rightarrow>
               log_hw
                 ([EncoderModeSet e] @
                  (if encoder_bridge drv e \<and> bridge_has_mode_set drv e then [BridgeModeSet e]
                   else []))
                 dev))"

definition crtc_set_mode :: "drm_driver \<Rightarrow> drm_device \<Rightarrow> drm_atomic_state \<Rightarrow> drm_device" where
  "crtc_set_mode drv dev old_state =
     fold (encoder_mode_set drv old_state) [0..<length (connector_states old_state)]
       (fold (crtc_mode_set old_state) [0..<length (crtc_states old_state)] dev)"

definition drm_atomic_helper_commit_pre_planes ::
  "drm_driver \<Rightarrow> drm_device \<Rightarrow> drm_atomic_state \<Rightarrow> drm_device" where
  "drm_atomic_helper_commit_pre_planes drv dev state =
     crtc_set_mode drv (set_routing_links (disable_outputs drv dev state) state) state"

text \<open>\<open>drm_atomic_helper_commit_planes\<close> and \<open>drm_atomic_helper_commit_post_planes\<close>\<close>

definition crtc_hook ::
  "(nat \<Rightarrow> bool) \<Rightarrow> (nat \<Rightarrow> hw_event) \<Rightarrow> drm_atomic_state \<Rightarrow> nat \<Rightarrow> drm_device \<Rightarrow> drm_device" where
  "crtc_hook has_hook event state i dev =
     (case crtc_states state ! i of
        None \<Rightarrow> dev
      | Some s \<Rightarrow> if has_hook i then log_hw [event i] dev else dev)"

definition plane_update :: "drm_driver \<Rightarrow> drm_atomic_state \<Rightarrow> nat \<Rightarrow> drm_device \<Rightarrow> drm_device" where
  "plane_update drv state i dev =
     (case plane_states state ! i of
        None \<Rightarrow> dev
      | Some s \<Rightarrow> if plane_has_atomic_update drv i then log_hw [PlaneAtomicUpdate i] dev else dev)"

definition drm_atomic_helper_commit_planes ::
  "drm_driver \<Rightarrow> drm_device \<Rightarrow> drm_atomic_state \<Rightarrow> drm_device" where
  "drm_atomic_helper_commit_planes drv dev state =
     fold (crtc_hook (crtc_has_atomic_flush drv) CrtcAtomicFlush state)
       [0..<length (crtc_states state)]
       (fold (plane_update drv state) [0..<length (plane_states state)]
          (fold (crtc_hook (crtc_has_atomic_begin drv) CrtcAtomicBegin state)
             [0..<length (crtc_states state)] dev))"

definition crtc_commit :: "drm_atomic_state \<Rightarrow> nat \<Rightarrow> drm_device \<Rightarrow> drm_device" where
  "crtc_commit old_state i dev =
     (case crtc_states old_state ! i of
        None \<Rightarrow> dev
      | Some s \<Rightarrow>
          if mode_changed (cur_crtc_state dev ! i) \<and> enable (cur_crtc_state dev ! i)
          then log_hw [CrtcCommit i] dev else dev)"

definition encoder_commit :: "drm_driver \<Rightarrow> drm_atomic_state \<Rightarrow> nat \<Rightarrow> drm_device \<Rightarrow> drm_device" where
  "encoder_commit drv old_state i dev =
     (case connector_states old_state ! i of
        None \<Rightarrow> dev
      | Some s \<Rightarrow>
          (case best_encoder (cur_connector_state dev ! i) of
             None \<Rightarrow> dev
           | Some e \<Rightarrow>
               log_hw
                 ((if encoder_bridge drv e then [BridgePreEnable e] else []) @
                  [EncoderCommit e] @
                  (if encoder_bridge drv e then [BridgeEnable e] else []))
                 dev))"

definition drm_atomic_helper_commit_post_planes ::
  "drm_driver \<Rightarrow> drm_device \<Rightarrow> drm_atomic_state \<Rightarrow> drm_device" where
  "drm_atomic_helper_commit_post_planes drv dev old_state =
     fold (encoder_commit drv old_state) [0..<length (connector_states old_state)]
       (fold (crtc_commit old_state) [0..<length (crtc_states old_state)] dev)"

text \<open>
  \<open>drm_atomic_helper_wait_for_vblanks\<close> keeps, in the \<open>enable\<close> field of the old state,
  whether it holds a vblank reference.
\<close>

definition vblank_get :: "drm_driver \<Rightarrow> drm_device \<Rightarrow> nat \<Rightarrow> drm_atomic_state \<Rightarrow> drm_atomic_state" where
  "vblank_get drv dev i old_state =
     (case crtc_states old_state ! i of
        None \<Rightarrow> old_state
      | Some old_crtc_state \<Rightarrow>
          old_state\<lparr>crtc_states := (crtc_states old_state)[i := Some
            (if enable (cur_crtc_state dev ! i) \<and> drm_crtc_vblank_get drv i
             then old_crtc_state\<lparr>enable := True, last_vblank_count := drm_vblank_count drv i\<rparr>
             else old_crtc_state\<lparr>enable := False\<rparr>)]\<rparr>)"

definition vblank_wait :: "drm_atomic_state \<Rightarrow> nat \<Rightarrow> drm_device \<Rightarrow> drm_device" where
  "vblank_wait old_state i dev =
     (case crtc_states old_state ! i of
        None \<Rightarrow> dev
      | Some old_crtc_state \<Rightarrow>
          if enable old_crtc_state then log_hw [VblankWait i, VblankPut i] dev else dev)"

definition drm_atomic_helper_wait_for_vblanks ::
  "drm_driver \<Rightarrow> drm_device \<Rightarrow> drm_atomic_state \<Rightarrow> drm_device \<times> drm_atomic_state" where
  "drm_atomic_helper_wait_for_vblanks drv dev old_state =
     (let old_state = fold (vblank_get drv dev) [0..<length (crtc_states old_state)] old_state
      in (fold (vblank_wait old_state) [0..<length (crtc_states old_state)] dev, old_state))"

text \<open>
  \<open>drm_atomic_helper_commit\<close> returns its result, the device and the transaction;
  the transaction is \<open>None\<close> once \<open>drm_atomic_state_free\<close> has released it.
\<close>

definition drm_atomic_helper_commit ::
  "drm_driver \<Rightarrow> drm_device \<Rightarrow> drm_atomic_state \<Rightarrow> bool \<Rightarrow>
   error option \<times> drm_device \<times> drm_atomic_state option" where
  "drm_atomic_helper_commit drv dev state async =
     (if async then (Some EBUSY, dev, Some state)
      else
        case drm_atomic_helper_prepare_planes drv dev state of
          (Some ret, dev) \<Rightarrow> (Some ret, dev, Some state)
        | (None, dev) \<Rightarrow>
            (case drm_atomic_helper_swap_state dev state of
               (dev, state) \<Rightarrow>
                 (let dev = wait_for_fences dev state;
                      dev = drm_atomic_helper_commit_pre_planes drv dev state;
                      dev = drm_atomic_helper_commit_planes drv dev state;
                      dev = drm_atomic_helper_commit_post_planes drv dev state
                  in case drm_atomic_helper_wait_for_vblanks drv dev state of
                       (dev, state) \<Rightarrow>
                         (None, drm_atomic_helper_cleanup_planes drv dev state, None))))"

subsection \<open>Vocabulary for the properties of the check\<close>

text \<open>
  \<open>tx_extends dev J s s'\<close>: the transaction \<open>s'\<close> is \<open>s\<close> with some empty connector slots
  filled by the connector's current state, each of them currently on a crtc of \<open>J\<close>.
  \<open>crtc_consistent dev s i\<close>: if crtc \<open>i\<close> is in the transaction \<open>s\<close> and needs a full
  modeset, every connector currently on it is in the transaction and its \<open>enable\<close> says
  whether a connector of the transaction is routed to it. \<open>same_flags s s'\<close>: the
  connector states are the same and every crtc state has the same \<open>enable\<close> and
  \<open>mode_changed\<close>.
\<close>

definition tx_extends ::
  "drm_device \<Rightarrow> nat set \<Rightarrow> drm_atomic_state \<Rightarrow> drm_atomic_state \<Rightarrow> bool" where
  "tx_extends dev J s s' =
     (crtc_states s' = crtc_states s \<and>
      length (connector_states s') = length (connector_states s) \<and>
      (\<forall>c<length (connector_states s).
         connector_states s' ! c = connector_states s ! c \<or>
         (connector_states s ! c = None \<and>
          connector_states s' ! c = Some (cur_connector_state dev ! c) \<and>
          (\<exists>j\<in>J. crtc (cur_connector_state dev ! c) = Some j))))"

definition connectors_pulled :: "drm_device \<Rightarrow> drm_atomic_state \<Rightarrow> nat \<Rightarrow> bool" where
  "connectors_pulled dev s i =
     (\<forall>c<length (cur_connector_state dev).
        crtc (cur_connector_state dev ! c) = Some i \<longrightarrow>
        c < length (connector_states s) \<and> connector_states s ! c \<noteq> None)"

definition crtc_consistent :: "drm_device \<Rightarrow> drm_atomic_state \<Rightarrow> nat \<Rightarrow> bool" where
  "crtc_consistent dev s i =
     (\<forall>cs. crtc_states s ! i = Some cs \<and> mode_changed cs \<longrightarrow>
        connectors_pulled dev s i \<and>
        enable cs = (drm_atomic_connectors_for_crtc s i \<noteq> 0))"

definition crtc_flags :: "drm_atomic_state \<Rightarrow> (bool \<times> bool) option list" where
  "crtc_flags s = map (map_option (\<lambda>cs. (enable cs, mode_changed cs))) (crtc_states s)"

definition same_flags :: "drm_atomic_state \<Rightarrow> drm_atomic_state \<Rightarrow> bool" where
  "same_flags s s' = (connector_states s' = connector_states s \<and> crtc_flags s' = crtc_flags s)"

text \<open>
  \<open>crtc_kept s s'\<close>: every crtc state of \<open>s\<close> is still in \<open>s'\<close> with the same \<open>mode\<close> and
  \<open>enable\<close>, and with \<open>mode_changed\<close> set if it was set.
\<close>

definition crtc_kept :: "drm_atomic_state \<Rightarrow> drm_atomic_state \<Rightarrow> bool" where
  "crtc_kept s s' =
     (length (crtc_states s') = length (crtc_states s) \<and>
      (\<forall>j<length (crtc_states s). \<forall>x. crtc_states s ! j = Some x \<longrightarrow>
         (\<exists>y. crtc_states s' ! j = Some y \<and> mode y = mode x \<and> enable y = enable x \<and>
              (mode_changed x \<longrightarrow> mode_changed y))))"

subsection \<open>Example device\<close>

text \<open>
  A device with one crtc, one plane and two connectors that are both off, on hardware
  where the two connectors are driven by the same encoder 0 (the \<open>best_encoder\<close> hook
  of either returns it); every hook succeeds. \<open>clone_transaction\<close> turns the crtc on
  with a new mode and routes both connectors to it.
\<close>

definition example_driver :: drm_driver where
  "example_driver = \<lparr>
     connector_best_encoder = (\<lambda>c. Some 0),
     encoder_bridge = (\<lambda>e. False),
     bridge_mode_fixup = (\<lambda>e. None),
     encoder_mode_fixup = (\<lambda>e m adjusted. (True, adjusted)),
     crtc_mode_fixup = (\<lambda>i m adjusted. (True, adjusted)),
     plane_atomic_check = (\<lambda>i. None),
     crtc_atomic_check = (\<lambda>i. None),
     encoder_has_disable = (\<lambda>e. False),
     crtc_has_disable = (\<lambda>i. False),
     bridge_has_mode_set = (\<lambda>e. False),
     crtc_has_atomic_begin = (\<lambda>i. False),
     plane_has_atomic_update = (\<lambda>i. False),
     crtc_has_atomic_flush = (\<lambda>i. False),
     plane_prepare_fb = (\<lambda>i. Some (\<lambda>f. None)),
     plane_has_cleanup_fb = (\<lambda>i. True),
     drm_crtc_vblank_get = (\<lambda>i. True),
     drm_vblank_count = (\<lambda>i. 0),
     modeset_lock_crtc = (\<lambda>i. None),
     modeset_lock_connection = None,
     kmemdup_ok = True \<rparr>"

definition example_device :: drm_device where
  "example_device = \<lparr>
     cur_crtc_state = [\<lparr>mode = 0, adjusted_mode = 0, enable = False, mode_changed = False,
                        planes_changed = False, last_vblank_count = 0\<rparr>],
     cur_connector_state = [\<lparr>crtc = None, best_encoder = None\<rparr>,
                            \<lparr>crtc = None, best_encoder = None\<rparr>],
     cur_plane_state = [\<lparr>plane_state_crtc = None, fb = None, fence = None,
                         src_x = 0, src_y = 0\<rparr>],
     plane_crtc = [None],
     connector_encoder = [None, None],
     encoder_legacy_crtc = (\<lambda>e. None),
     crtc_mode = [0],
     crtc_enabled = [False],
     crtc_x = [0],
     crtc_y = [0],
     crtc_primary = [0],
     hw_log = [] \<rparr>"

definition clone_transaction :: drm_atomic_state where
  "clone_transaction = \<lparr>
     crtc_states = [Some \<lparr>mode = 1, adjusted_mode = 0, enable = True, mode_changed = False,
                          planes_changed = False, last_vblank_count = 0\<rparr>],
     connector_states = [Some \<lparr>crtc = Some 0, best_encoder = None\<rparr>,
                         Some \<lparr>crtc = Some 0, best_encoder = None\<rparr>],
     plane_states = [Some \<lparr>plane_state_crtc = Some 0, fb = Some 7, fence = None,
                           src_x = 0, src_y = 0\<rparr>] \<rparr>"

text \<open>
  The same hardware with connector 0 lit on crtc 0 through encoder 0, and a
  transaction that only gives crtc 0 a new mode.
\<close>

definition lit_device :: drm_device where
  "lit_device = example_device\<lparr>
     cur_crtc_state := [\<lparr>mode = 1, adjusted_mode = 1, enable = True, mode_changed = False,
                         planes_changed = False, last_vblank_count = 0\<rparr>],
     cur_connector_state := [\<lparr>crtc = Some 0, best_encoder = Some 0\<rparr>,
                             \<lparr>crtc = None, best_encoder = None\<rparr>]\<rparr>"

definition mode_transaction :: drm_atomic_state where
  "mode_transaction = \<lparr>
     crtc_states = [Some \<lparr>mode = 2, adjusted_mode = 1, enable = True, mode_changed = False,
                          planes_changed = False, last_vblank_count = 0\<rparr>],
     connector_states = [None, None],
     plane_states = [None] \<rparr>"

section \<open>Properties of the entry encoders\<close>

lemma page_aligned_bit:
  assumes a: "addr AND 0xfff = 0" and n: "n < 12"
  shows "\<not> bit (addr :: 64 word) n"
proof
  assume b: "bit addr n"
  have "addr AND mask 12 = 0" using a by (simp add: mask_eq_exp_minus_1)
  moreover have "bit (addr AND mask 12) n" using b n by (simp add: bit_simps)
  ultimately show False by simp
qed

lemma and_1_iff: "(x AND 1 = 0) = (\<not> bit (x :: 'a::len word) 0)"
  by (simp add: and_one_eq bit_0 mod_2_eq_odd)

lemma and_3_iff: "(x AND 3 = 0) = (\<not> bit (x :: 'a::len word) 0 \<and> \<not> bit x 1)"
proof -
  have m: "(3 :: 'a word) = mask 2" by (simp add: mask_eq_exp_minus_1)
  have "(x AND mask 2 = 0) = (\<forall>n. \<not> (bit x n \<and> n < 2))"
    by (auto simp add: bit_eq_iff bit_simps dest: bit_imp_le_length)
  also have "\<dots> = (\<not> bit x 0 \<and> \<not> bit x 1)"
  proof (intro iffI conjI allI)
    fix n :: nat
    assume "\<not> bit x 0 \<and> \<not> bit x 1"
    moreover have "n < 2 \<Longrightarrow> n = 0 \<or> n = 1" by arith
    ultimately show "\<not> (bit x n \<and> n < 2)" by auto
  qed auto
  finally show ?thesis by (simp only: m)
qed

lemma gen8_valid_bits:
  "fst (gen8_pte_encode h addr level True) =
   fst (gen8_pte_encode h addr level False) OR (PAGE_PRESENT h OR PAGE_RW h)"
  by (simp add: gen8_pte_encode_def Let_def ac_simps split: i915_cache_level.split)

lemma snb_valid_bit:
  "fst (snb_pte_encode h addr level True fl) =
   fst (snb_pte_encode h addr level False fl) OR GEN6_PTE_VALID h"
  by (simp add: snb_pte_encode_def Let_def ac_simps split: i915_cache_level.split)

lemma ivb_valid_bit:
  "fst (ivb_pte_encode h addr level True fl) =
   fst (ivb_pte_encode h addr level False fl) OR GEN6_PTE_VALID h"
  by (simp add: ivb_pte_encode_def Let_def ac_simps split: i915_cache_level.split)

lemma byt_valid_bit:
  "fst (byt_pte_encode h addr level True fl) =
   fst (byt_pte_encode h addr level False fl) OR GEN6_PTE_VALID h"
  by (simp add: byt_pte_encode_def Let_def ac_simps)

lemma hsw_valid_bit:
  "fst (hsw_pte_encode h addr level True fl) =
   fst (hsw_pte_encode h addr level False fl) OR GEN6_PTE_VALID h"
  by (simp add: hsw_pte_encode_def Let_def ac_simps)

lemma iris_valid_bit:
  "fst (iris_pte_encode h addr level True fl) =
   fst (iris_pte_encode h addr level False fl) OR GEN6_PTE_VALID h"
  by (simp add: iris_pte_encode_def Let_def ac_simps split: i915_cache_level.split)

lemma gen8_invalid_not_present:
  "addr AND 0xfff = 0 \<Longrightarrow>
   fst (gen8_pte_encode i915_hdr addr level False) AND
     (PAGE_PRESENT i915_hdr OR PAGE_RW i915_hdr) = 0"
  apply (simp add: gen8_pte_encode_def Let_def i915_hdr_def and_3_iff
      split: i915_cache_level.split)
  apply (simp add: bit_simps page_aligned_bit)
  done

lemma snb_invalid_not_present:
  "addr AND 0xfff = 0 \<Longrightarrow>
   fst (snb_pte_encode i915_hdr addr level False fl) AND GEN6_PTE_VALID i915_hdr = 0"
  apply (simp add: snb_pte_encode_def Let_def i915_hdr_def and_1_iff
      split: i915_cache_level.split)
  apply (simp add: bit_simps page_aligned_bit)
  done

lemma ivb_invalid_not_present:
  "addr AND 0xfff = 0 \<Longrightarrow>
   fst (ivb_pte_encode i915_hdr addr level False fl) AND GEN6_PTE_VALID i915_hdr = 0"
  apply (simp add: ivb_pte_encode_def Let_def i915_hdr_def and_1_iff
      split: i915_cache_level.split)
  apply (simp add: bit_simps page_aligned_bit)
  done

lemma byt_invalid_not_present:
  "addr AND 0xfff = 0 \<Longrightarrow>
   fst (byt_pte_encode i915_hdr addr level False fl) AND GEN6_PTE_VALID i915_hdr = 0"
  apply (simp add: byt_pte_encode_def Let_def i915_hdr_def and_1_iff)
  apply (simp add: bit_simps page_aligned_bit)
  done

lemma hsw_invalid_not_present:
  "addr AND 0xfff = 0 \<Longrightarrow>
   fst (hsw_pte_encode i915_hdr addr level False fl) AND GEN6_PTE_VALID i915_hdr = 0"
  apply (simp add: hsw_pte_encode_def Let_def i915_hdr_def and_1_iff)
  apply (simp add: bit_simps page_aligned_bit)
  done

lemma iris_invalid_not_present:
  "addr AND 0xfff = 0 \<Longrightarrow>
   fst (iris_pte_encode i915_hdr addr level False fl) AND GEN6_PTE_VALID i915_hdr = 0"
  apply (simp add: iris_pte_encode_def Let_def i915_hdr_def and_1_iff
      split: i915_cache_level.split)
  apply (simp add: bit_simps page_aligned_bit)
  done

text \<open>
  C10 as stated fails for an address that is not page-aligned: the encoders OR the
  address into the entry unmasked, so at \<open>0x5001\<close> the entry encoded with
  \<open>valid = false\<close> has the present/valid bit set (it comes from the address), and on
  gen6 it is the very entry encoded with \<open>valid = true\<close>.
\<close>

theorem pte_encode_unaligned_counterexample:
  "fst (snb_pte_encode i915_hdr 0x5001 I915_CACHE_LLC False 0) = 0x5005
   \<and> fst (snb_pte_encode i915_hdr 0x5001 I915_CACHE_LLC True 0) = 0x5005
   \<and> fst (snb_pte_encode i915_hdr 0x5001 I915_CACHE_LLC False 0) AND
       GEN6_PTE_VALID i915_hdr = 1
   \<and> fst (gen8_pte_encode i915_hdr 0x5001 I915_CACHE_LLC False) = 0x5081
   \<and> fst (gen8_pte_encode i915_hdr 0x5001 I915_CACHE_LLC False) AND
       PAGE_PRESENT i915_hdr = 1"
  by (simp add: snb_pte_encode_def gen8_pte_encode_def i915_hdr_def)

text \<open>
  C10, amended. For every encoder, address, cache level and flags, the entry encoded
  with \<open>valid = true\<close> is the entry encoded with \<open>valid = false\<close> with the valid bit
  (on gen8: present and read/write) set on top: every other bit, address and cache
  policy included, is the same in both. For a page-aligned address (low twelve bits
  clear) and the header's bit layout, the \<open>valid = false\<close> entry has the valid bits
  clear, so it is non-present while carrying the address and cache bits.
\<close>

theorem pte_encode_valid_only:
  "fst (gen8_pte_encode h addr level True) =
     fst (gen8_pte_encode h addr level False) OR (PAGE_PRESENT h OR PAGE_RW h)
   \<and> fst (snb_pte_encode h addr level True fl) =
     fst (snb_pte_encode h addr level False fl) OR GEN6_PTE_VALID h
   \<and> fst (ivb_pte_encode h addr level True fl) =
     fst (ivb_pte_encode h addr level False fl) OR GEN6_PTE_VALID h
   \<and> fst (byt_pte_encode h addr level True fl) =
     fst (byt_pte_encode h addr level False fl) OR GEN6_PTE_VALID h
   \<and> fst (hsw_pte_encode h addr level True fl) =
     fst (hsw_pte_encode h addr level False fl) OR GEN6_PTE_VALID h
   \<and> fst (iris_pte_encode h addr level True fl) =
     fst (iris_pte_encode h addr level False fl) OR GEN6_PTE_VALID h
   \<and> (addr AND 0xfff = 0 \<longrightarrow>
        fst (gen8_pte_encode i915_hdr addr level False) AND
          (PAGE_PRESENT i915_hdr OR PAGE_RW i915_hdr) = 0
      \<and> fst (snb_pte_encode i915_hdr addr level False fl) AND GEN6_PTE_VALID i915_hdr = 0
      \<and> fst (ivb_pte_encode i915_hdr addr level False fl) AND GEN6_PTE_VALID i915_hdr = 0
      \<and> fst (byt_pte_encode i915_hdr addr level False fl) AND GEN6_PTE_VALID i915_hdr = 0
      \<and> fst (hsw_pte_encode i915_hdr addr level False fl) AND GEN6_PTE_VALID i915_hdr = 0
      \<and> fst (iris_pte_encode i915_hdr addr level False fl) AND GEN6_PTE_VALID i915_hdr = 0)"
  by (intro conjI impI gen8_valid_bits snb_valid_bit ivb_valid_bit byt_valid_bit
      hsw_valid_bit iris_valid_bit gen8_invalid_not_present snb_invalid_not_present
      ivb_invalid_not_present byt_invalid_not_present hsw_invalid_not_present
      iris_invalid_not_present; assumption)

theorem pte_encode_valid_only_witness:
  "(0x5000 :: dma_addr_t) AND 0xfff = 0
   \<and> fst (snb_pte_encode i915_hdr 0x5000 I915_CACHE_LLC True 0) = 0x5005
   \<and> fst (snb_pte_encode i915_hdr 0x5000 I915_CACHE_LLC False 0) = 0x5004
   \<and> fst (gen8_pte_encode i915_hdr 0x5000 I915_CACHE_NONE True) = 0x501B
   \<and> fst (gen8_pte_encode i915_hdr 0x5000 I915_CACHE_NONE False) AND
       (PAGE_PRESENT i915_hdr OR PAGE_RW i915_hdr) = 0
   \<and> fst (snb_pte_encode i915_hdr 0x5000 I915_CACHE_LLC False 0) AND
       GEN6_PTE_VALID i915_hdr = 0"
  using pte_encode_valid_only [of i915_hdr "0x5000" I915_CACHE_LLC 0]
    pte_encode_valid_only [of i915_hdr "0x5000" I915_CACHE_NONE 0]
  by (simp add: snb_pte_encode_def gen8_pte_encode_def i915_hdr_def)

text \<open>
  C5 as stated fails: a level outside the enumeration does not give the uncached
  encoding. On gen8 the entry carries the cached index and nothing is logged; on
  gen6 the warning is logged but the entry lacks the uncached bit.
\<close>

theorem pte_encode_fallback_counterexample:
  "fst (gen8_pte_encode i915_hdr 0 (I915_CACHE_INVALID 7) True) = 0x83
   \<and> fst (gen8_pte_encode i915_hdr 0 I915_CACHE_NONE True) = 0x1B
   \<and> \<not> snd (gen8_pte_encode i915_hdr 0 (I915_CACHE_INVALID 7) True)
   \<and> fst (snb_pte_encode i915_hdr 0 (I915_CACHE_INVALID 7) True 0) = 0x1
   \<and> fst (snb_pte_encode i915_hdr 0 I915_CACHE_NONE True 0) = 0x3
   \<and> fst (ivb_pte_encode i915_hdr 0 (I915_CACHE_INVALID 7) True 0) = 0x1
   \<and> fst (ivb_pte_encode i915_hdr 0 I915_CACHE_NONE True 0) = 0x3"
  by (simp add: gen8_pte_encode_def snb_pte_encode_def ivb_pte_encode_def i915_hdr_def)

text \<open>
  C5, amended. For every address, validity flag and flags word, a level the encoder
  does not single out is handled as follows and never fails: \<open>gen8_pte_encode\<close>,
  \<open>byt_pte_encode\<close>, \<open>hsw_pte_encode\<close> and \<open>iris_pte_encode\<close> encode it like the
  cached level \<open>I915_CACHE_LLC\<close> and log nothing; \<open>snb_pte_encode\<close> and
  \<open>ivb_pte_encode\<close> log a warning and return the entry with the valid bit and the
  address only, no cache-control bit set (for \<open>snb_pte_encode\<close> and
  \<open>ivb_pte_encode\<close> the write-through level is such a level too).
\<close>

theorem pte_encode_unrecognized_level:
  "gen8_pte_encode h addr (I915_CACHE_INVALID k) valid =
     (((if valid then PAGE_PRESENT h OR PAGE_RW h else 0) OR addr) OR PPAT_CACHED_INDEX h, False)
   \<and> gen8_pte_encode h addr (I915_CACHE_INVALID k) valid =
       gen8_pte_encode h addr I915_CACHE_LLC valid
   \<and> byt_pte_encode h addr (I915_CACHE_INVALID k) valid fl =
       byt_pte_encode h addr I915_CACHE_LLC valid fl
   \<and> hsw_pte_encode h addr (I915_CACHE_INVALID k) valid fl =
       hsw_pte_encode h addr I915_CACHE_LLC valid fl
   \<and> iris_pte_encode h addr (I915_CACHE_INVALID k) valid fl =
       iris_pte_encode h addr I915_CACHE_LLC valid fl
   \<and> snb_pte_encode h addr (I915_CACHE_INVALID k) valid fl =
       ((if valid then GEN6_PTE_VALID h else 0) OR ucast (GEN6_PTE_ADDR_ENCODE h addr), True)
   \<and> snb_pte_encode h addr I915_CACHE_WT valid fl =
       ((if valid then GEN6_PTE_VALID h else 0) OR ucast (GEN6_PTE_ADDR_ENCODE h addr), True)
   \<and> ivb_pte_encode h addr (I915_CACHE_INVALID k) valid fl =
       ((if valid then GEN6_PTE_VALID h else 0) OR ucast (GEN6_PTE_ADDR_ENCODE h addr), True)
   \<and> ivb_pte_encode h addr I915_CACHE_WT valid fl =
       ((if valid then GEN6_PTE_VALID h else 0) OR ucast (GEN6_PTE_ADDR_ENCODE h addr), True)"
  by (simp add: gen8_pte_encode_def byt_pte_encode_def hsw_pte_encode_def
      iris_pte_encode_def snb_pte_encode_def ivb_pte_encode_def Let_def)

section \<open>Properties of the page-table operations\<close>

declare fill_ptes.simps [simp del]

declare gen6_clear_loop.simps [simp del]

lemma fill_ptes_length [simp]: "length (fill_ptes v i l pt) = length pt"
proof (induction v i l pt rule: fill_ptes.induct)
  case (1 v i l pt)
  then show ?case by (subst fill_ptes.simps) simp
qed

lemma fill_ptes_nth:
  "j < length pt \<Longrightarrow> fill_ptes v i l pt ! j = (if i \<le> j \<and> j < l then v else pt ! j)"
proof (induction v i l pt rule: fill_ptes.induct)
  case (1 v i l pt)
  show ?case
  proof (cases "i < l")
    case True
    have "fill_ptes v i l pt ! j = fill_ptes v (i + 1) l (pt[i := v]) ! j"
      using True by (subst fill_ptes.simps) simp
    also have "\<dots> = (if i + 1 \<le> j \<and> j < l then v else pt[i := v] ! j)"
      using 1 True by simp
    also have "\<dots> = (if i \<le> j \<and> j < l then v else pt ! j)"
      using True "1.prems" by (auto simp: nth_list_update)
    finally show ?thesis .
  next
    case False
    then show ?thesis by (subst fill_ptes.simps) auto
  qed
qed

lemma pt_write_length [simp]: "length (pt_write n pts lo vs) = length pts"
  by (simp add: pt_write_def)

lemma pt_write_page_length [simp]:
  "p < length pts \<Longrightarrow> length (pt_write n pts lo vs ! p) = n"
  by (simp add: pt_write_def)

lemma pt_write_nth:
  "p < length pts \<Longrightarrow> e < n \<Longrightarrow>
   pt_write n pts lo vs ! p ! e =
     (if lo \<le> p * n + e \<and> p * n + e < lo + length vs then vs ! (p * n + e - lo)
      else pts ! p ! e)"
  by (simp add: pt_write_def)

lemma wf_tables_nth: "wf_tables n pts \<Longrightarrow> p < length pts \<Longrightarrow> length (pts ! p) = n"
  by (simp add: wf_tables_def list_all_length)

lemma wf_tables_pt_write [simp]: "wf_tables n (pt_write n pts lo vs)"
  by (simp add: wf_tables_def list_all_length)

lemma tables_eqI:
  assumes "wf_tables n A" "wf_tables n B" "length A = length B"
    and "\<And>p e. p < length A \<Longrightarrow> e < n \<Longrightarrow> A ! p ! e = B ! p ! e"
  shows "A = B"
proof (rule nth_equalityI)
  show "length A = length B" by fact
next
  fix p assume p: "p < length A"
  show "A ! p = B ! p"
  proof (rule nth_equalityI)
    show "length (A ! p) = length (B ! p)"
      using assms(1-3) p by (simp add: wf_tables_nth)
  next
    fix e assume "e < length (A ! p)"
    then have "e < n" using assms(1) p by (simp add: wf_tables_nth)
    then show "A ! p ! e = B ! p ! e" using assms(4) p by simp
  qed
qed

lemma pt_write_Nil: "wf_tables n pts \<Longrightarrow> pt_write n pts lo [] = pts"
  by (rule tables_eqI[where n = n]) (auto simp add: pt_write_nth)

lemma pt_write_append:
  "pt_write n (pt_write n pts lo xs) (lo + length xs) ys = pt_write n pts lo (xs @ ys)"
  by (rule tables_eqI[where n = n]) (auto simp add: pt_write_nth nth_append)

lemma wf_tables_update:
  "wf_tables n pts \<Longrightarrow> length pt = n \<Longrightarrow> wf_tables n (pts[a := pt])"
  using set_update_subset_insert[of pts a pt] by (auto simp add: wf_tables_def list_all_iff)

lemma gen6_fill_page:
  assumes wf: "wf_tables 1024 pts" and a: "a < length pts" and fl: "f \<le> l" "l \<le> 1024"
  shows "pts[a := fill_ptes s f l (pts ! a)] = pt_write 1024 pts (a * 1024 + f) (replicate (l - f) s)"
proof (rule tables_eqI[where n = 1024])
  show "wf_tables 1024 (pts[a := fill_ptes s f l (pts ! a)])"
    using wf a by (simp add: wf_tables_update wf_tables_nth)
next
  fix p e assume p: "p < length (pts[a := fill_ptes s f l (pts ! a)])" and e: "e < (1024::nat)"
  have la: "length (pts ! a) = 1024" using wf a by (simp add: wf_tables_nth)
  show "pts[a := fill_ptes s f l (pts ! a)] ! p ! e =
        pt_write 1024 pts (a * 1024 + f) (replicate (l - f) s) ! p ! e"
  proof (cases "p = a")
    case True
    then show ?thesis using a e fl la by (auto simp add: pt_write_nth fill_ptes_nth)
  next
    case False
    then have "\<not> (a * 1024 + f \<le> p * 1024 + e \<and> p * 1024 + e < a * 1024 + f + (l - f))"
      using e fl by arith
    then show ?thesis using False p e by (auto simp add: pt_write_nth)
  qed
qed simp_all

lemma sub_mod_wrap: "b \<le> a \<Longrightarrow> a < m \<Longrightarrow> (a + m - b mod m) mod m = a - (b::nat)"
  by (simp add: mod_if)

lemma u32_add_small: "a + b < 2 ^ 32 \<Longrightarrow> u32_add a b = a + b"
  unfolding u32_add_def by (rule mod_less)

lemma u32_sub_small: "b \<le> a \<Longrightarrow> a < 2 ^ 32 \<Longrightarrow> u32_sub a b = a - b"
  unfolding u32_sub_def by (rule sub_mod_wrap)

lemma gen6_clear_loop_refines:
  assumes "wf_tables 1024 pts" "f < 1024" "a * 1024 + f + n \<le> length pts * 1024"
    "f + n < 2 ^ 32"
  shows "gen6_clear_loop s pts a f n = Some (pt_write 1024 pts (a * 1024 + f) (replicate n s))"
  using assms
proof (induction k \<equiv> "length pts - a" arbitrary: pts a f n)
  case 0
  then have "n = 0" by arith
  then show ?case using "0.prems"(1) by (subst gen6_clear_loop.simps) (simp add: pt_write_Nil)
next
  case (Suc k)
  show ?case
  proof (cases "n = 0")
    case True
    then show ?thesis using Suc.prems(1) by (subst gen6_clear_loop.simps) (simp add: pt_write_Nil)
  next
    case False
    define l where "l = (if f + n > 1024 then 1024 else f + n)"
    define pts1 where "pts1 = pts[a := fill_ptes s f l (pts ! a)]"
    define n' where "n' = n - (l - f)"
    have a: "a < length pts" using Suc.hyps(2) by arith
    have l: "f \<le> l" "l \<le> 1024" "l - f \<le> n" using Suc.prems(2) False by (auto simp: l_def)
    have n32: "n < 2 ^ 32" "l < 2 ^ 32" using Suc.prems(4) l(3) by simp_all
    have ua: "u32_add f n = f + n" using Suc.prems(4) by (rule u32_add_small)
    have "u32_sub l f = l - f" using l(1) n32(2) by (rule u32_sub_small)
    moreover have "u32_sub n (l - f) = n - (l - f)" using l(3) n32(1) by (rule u32_sub_small)
    ultimately have us: "u32_sub n (u32_sub l f) = n'" by (simp add: n'_def)
    have p1: "pts1 = pt_write 1024 pts (a * 1024 + f) (replicate (l - f) s)"
      unfolding pts1_def using Suc.prems(1) a l(1,2) by (rule gen6_fill_page)
    have step: "gen6_clear_loop s pts a f n = gen6_clear_loop s pts1 (a + 1) 0 n'"
      using False a ua us by (subst gen6_clear_loop.simps) (simp add: Let_def l_def pts1_def)
    have ih: "gen6_clear_loop s pts1 (a + 1) 0 n' =
        Some (pt_write 1024 pts1 ((a + 1) * 1024 + 0) (replicate n' s))"
    proof (rule Suc.hyps(1))
      show "k = length pts1 - (a + 1)" using Suc.hyps(2) by (simp add: p1)
      show "wf_tables 1024 pts1" by (simp add: p1)
      show "(0::nat) < 1024" by simp
      show "(a + 1) * 1024 + 0 + n' \<le> length pts1 * 1024"
        using Suc.prems(3) a by (auto simp: p1 n'_def l_def)
      show "0 + n' < 2 ^ 32" using n32(1) by (simp add: n'_def)
    qed
    have "pt_write 1024 pts1 ((a + 1) * 1024 + 0) (replicate n' s) =
          pt_write 1024 pts (a * 1024 + f) (replicate n s)"
    proof (cases "f + n > 1024")
      case True
      then have e: "(a + 1) * 1024 + 0 = a * 1024 + f + length (replicate (l - f) s)"
        using l by (simp add: l_def)
      have "replicate (l - f) s @ replicate n' s = replicate n s"
        using l by (simp add: n'_def replicate_add[symmetric])
      then show ?thesis unfolding p1 e pt_write_append by simp
    next
      case False
      then have "n' = 0" "l - f = n" by (simp_all add: n'_def l_def)
      then show ?thesis by (simp add: p1 pt_write_Nil)
    qed
    then show ?thesis using step ih by simp
  qed
qed

lemma gen6_store_entry:
  assumes wf: "wf_tables 1024 pts" and a: "a < length pts" and e: "e < 1024"
  shows "pts[a := (pts ! a)[e := v]] = pt_write 1024 pts (a * 1024 + e) [v]"
proof (rule tables_eqI[where n = 1024])
  show "wf_tables 1024 (pts[a := (pts ! a)[e := v]])"
    using wf a by (simp add: wf_tables_update wf_tables_nth)
next
  fix p i assume p: "p < length (pts[a := (pts ! a)[e := v]])" and i: "i < (1024::nat)"
  have la: "length (pts ! a) = 1024" using wf a by (simp add: wf_tables_nth)
  show "pts[a := (pts ! a)[e := v]] ! p ! i = pt_write 1024 pts (a * 1024 + e) [v] ! p ! i"
  proof (cases "p = a")
    case True
    then show ?thesis using a e i la by (auto simp add: pt_write_nth nth_list_update)
  next
    case False
    then have "\<not> (a * 1024 + e \<le> p * 1024 + i \<and> p * 1024 + i < a * 1024 + e + 1)"
      using e i by arith
    then show ?thesis using False p i by (auto simp add: pt_write_nth)
  qed
qed simp_all

lemma small_lt_u32: "a \<le> 1024 \<Longrightarrow> a < (2::nat) ^ 32"
proof -
  assume "a \<le> 1024"
  moreover have "(1024::nat) < 2 ^ 32" by simp
  ultimately show ?thesis by (rule le_less_trans)
qed

lemma gen6_insert_loop_refines:
  assumes "wf_tables 1024 pts" "e < 1024" "a * 1024 + e + length sg \<le> length pts * 1024"
  shows "gen6_insert_loop enc pts a e sg = Some (pt_write 1024 pts (a * 1024 + e) (map enc sg))"
  using assms
proof (induction sg arbitrary: pts a e)
  case Nil
  then show ?case by (simp add: pt_write_Nil)
next
  case (Cons addr sg)
  define pts1 where "pts1 = pts[a := (pts ! a)[e := enc addr]]"
  have a: "a < length pts" using Cons.prems(2,3) by simp
  have p1: "pts1 = pt_write 1024 pts (a * 1024 + e) [enc addr]"
    unfolding pts1_def using Cons.prems(1) a Cons.prems(2) by (rule gen6_store_entry)
  have "e + 1 \<le> 1024" using Cons.prems(2) by simp
  then have "e + 1 < 2 ^ 32" by (rule small_lt_u32)
  then have ua: "u32_add e 1 = e + 1" by (rule u32_add_small)
  have wf1: "wf_tables 1024 pts1" by (simp add: p1)
  have app: "pt_write 1024 pts1 (a * 1024 + e + 1) (map enc sg) =
             pt_write 1024 pts (a * 1024 + e) (map enc (addr # sg))"
    using pt_write_append[of 1024 pts "a * 1024 + e" "[enc addr]" "map enc sg"]
    by (simp add: p1)
  show ?case
  proof (cases "e + 1 = 1024")
    case True
    have "gen6_insert_loop enc pts1 (a + 1) 0 sg =
          Some (pt_write 1024 pts1 ((a + 1) * 1024 + 0) (map enc sg))"
      using wf1 Cons.prems(3) True by (intro Cons.IH) (simp_all add: p1)
    moreover have "(a + 1) * 1024 + 0 = a * 1024 + e + 1" using True by simp
    ultimately show ?thesis using a ua True app by (simp add: Let_def pts1_def)
  next
    case False
    have "gen6_insert_loop enc pts1 a (e + 1) sg =
          Some (pt_write 1024 pts1 (a * 1024 + (e + 1)) (map enc sg))"
      using wf1 Cons.prems(2,3) False by (intro Cons.IH) (simp_all add: p1)
    then show ?thesis using a ua False app by (simp add: Let_def pts1_def add.assoc)
  qed
qed

declare gen8_fill_ptes.simps [simp del]

declare gen8_clear_loop.simps [simp del]

lemma pd_write_length [simp]: "length (pd_write pds lo vs) = length pds"
  by (simp add: pd_write_def)

lemma pd_write_nth:
  "i < length pds \<Longrightarrow> j < 512 \<Longrightarrow> e < 512 \<Longrightarrow>
   pd_write pds lo vs ! i ! j ! e =
     (if lo \<le> gen8_index i j e \<and> gen8_index i j e < lo + length vs
      then vs ! (gen8_index i j e - lo) else pds ! i ! j ! e)"
  by (simp add: pd_write_def)

lemma pd_write_replicate_nth:
  "i < length pds \<Longrightarrow> j < 512 \<Longrightarrow> e < 512 \<Longrightarrow>
   pd_write pds lo (replicate n s) ! i ! j ! e =
     (if lo \<le> gen8_index i j e \<and> gen8_index i j e < lo + n then s else pds ! i ! j ! e)"
  by (auto simp add: pd_write_nth)

lemma wf_dirs_nth:
  "wf_dirs pds \<Longrightarrow> i < length pds \<Longrightarrow> length (pds ! i) = 512 \<and> wf_tables 512 (pds ! i)"
  by (simp add: wf_dirs_def list_all_length)

lemma wf_dirs_pd_write [simp]: "wf_dirs (pd_write pds lo vs)"
  by (simp add: wf_dirs_def wf_tables_def list_all_length pd_write_def)

lemma dirs_eqI:
  assumes "wf_dirs A" "wf_dirs B" "length A = length B"
    and "\<And>i j e. i < length A \<Longrightarrow> j < 512 \<Longrightarrow> e < 512 \<Longrightarrow> A ! i ! j ! e = B ! i ! j ! e"
  shows "A = B"
proof (rule nth_equalityI)
  show "length A = length B" by fact
next
  fix i assume i: "i < length A"
  show "A ! i = B ! i"
  proof (rule tables_eqI[where n = 512])
    show "wf_tables 512 (A ! i)" using assms(1) i by (simp add: wf_dirs_nth)
    show "wf_tables 512 (B ! i)" using assms(2,3) i by (simp add: wf_dirs_nth)
    show "length (A ! i) = length (B ! i)" using assms(1-3) i by (simp add: wf_dirs_nth)
  next
    fix j e assume "j < length (A ! i)" and e: "e < (512::nat)"
    then have "j < 512" using assms(1) i by (simp add: wf_dirs_nth)
    then show "A ! i ! j ! e = B ! i ! j ! e" using assms(4) i e by simp
  qed
qed

lemma pd_write_Nil: "wf_dirs pds \<Longrightarrow> pd_write pds lo [] = pds"
  by (rule dirs_eqI) (auto simp add: pd_write_nth)

lemma pd_write_append:
  "pd_write (pd_write pds lo xs) (lo + length xs) ys = pd_write pds lo (xs @ ys)"
  by (rule dirs_eqI) (auto simp add: pd_write_nth nth_append)

lemma gen8_fill_ptes_eq:
  "l - i \<le> n \<Longrightarrow> n < 2 ^ 32 \<Longrightarrow>
   gen8_fill_ptes v i l pt n = (fill_ptes v i l pt, n - (l - i))"
proof (induction k \<equiv> "l - i" arbitrary: i pt n)
  case 0
  then have "\<not> i < l" by simp
  then show ?case
    by (subst gen8_fill_ptes.simps, subst fill_ptes.simps) simp
next
  case (Suc k)
  then have il: "i < l" by arith
  have n1: "1 \<le> n" using Suc.hyps(2) Suc.prems(1) by arith
  have us: "u32_sub n 1 = n - 1" using n1 Suc.prems(2) by (rule u32_sub_small)
  have "n - 1 < 2 ^ 32" using Suc.prems(2) by (rule less_imp_diff_less)
  moreover have "k = l - (i + 1)" "l - (i + 1) \<le> n - 1"
    using Suc.hyps(2) Suc.prems(1) by arith+
  ultimately have "gen8_fill_ptes v (i + 1) l (pt[i := v]) (n - 1) =
      (fill_ptes v (i + 1) l (pt[i := v]), n - 1 - (l - (i + 1)))"
    by (intro Suc.hyps(1))
  moreover have "n - 1 - (l - (i + 1)) = n - (l - i)" using il by arith
  ultimately show ?case using il us
    by (subst gen8_fill_ptes.simps, subst fill_ptes.simps) simp
qed

lemma wf_dirs_page:
  "wf_dirs pds \<Longrightarrow> i < length pds \<Longrightarrow> j < 512 \<Longrightarrow> length (pds ! i ! j) = 512"
  using wf_dirs_nth[of pds i] wf_tables_nth[of 512 "pds ! i" j] by simp

lemma wf_dirs_update:
  assumes "wf_dirs pds" "i < length pds" "j < 512" "length pt = 512"
  shows "wf_dirs (pds[i := (pds ! i)[j := pt]])"
proof -
  have "length ((pds ! i)[j := pt]) = 512 \<and> wf_tables 512 ((pds ! i)[j := pt])"
    using assms wf_dirs_nth[of pds i] by (simp add: wf_tables_update)
  then show ?thesis
    using assms(1) set_update_subset_insert[of pds i "(pds ! i)[j := pt]"]
    by (auto simp add: wf_dirs_def list_all_iff)
qed

lemma page_index_neq:
  assumes q: "q < 512" and j: "j < 512" and n: "\<not> (p = i \<and> q = j)"
  shows "p * 512 + q \<noteq> i * 512 + (j::nat)"
proof
  assume eq: "p * 512 + q = i * 512 + j"
  have "(p * 512 + q) div 512 = p" "(p * 512 + q) mod 512 = q" using q by simp_all
  moreover have "(i * 512 + j) div 512 = i" "(i * 512 + j) mod 512 = j" using j by simp_all
  ultimately have "p = i \<and> q = j" using eq by simp
  with n show False by simp
qed

lemma outside_page:
  "P \<noteq> A \<Longrightarrow> e < 512 \<Longrightarrow> f + n \<le> 512 \<Longrightarrow>
   \<not> (A * 512 + f \<le> P * 512 + e \<and> P * 512 + e < A * 512 + f + (n::nat))"
  by arith

lemma gen8_index_outside:
  assumes "q < 512" "j < 512" "\<not> (p = i \<and> q = j)" "e < 512" "f + n \<le> 512"
  shows "\<not> (gen8_index i j f \<le> gen8_index p q e \<and> gen8_index p q e < gen8_index i j f + n)"
  unfolding gen8_index_def
  using page_index_neq[OF assms(1-3)] assms(4,5) by (rule outside_page)

lemma gen8_index_inside:
  "(gen8_index i j f \<le> gen8_index i j e \<and> gen8_index i j e < gen8_index i j f + n) =
   (f \<le> e \<and> e < f + n)"
  unfolding gen8_index_def by arith

lemma gen8_index_next:
  "gen8_index (i + 1) 0 0 = gen8_index i 511 0 + 512"
  "gen8_index i (j + 1) 0 = gen8_index i j 0 + 512"
  "gen8_index i j (e + n) = gen8_index i j e + n"
  unfolding gen8_index_def by simp_all

lemma nth_update_2d:
  "i < length pds \<Longrightarrow> j < length (pds ! i) \<Longrightarrow>
   pds[i := (pds ! i)[j := x]] ! p ! q = (if p = i \<and> q = j then x else pds ! p ! q)"
  by (auto simp add: nth_list_update)

lemma gen8_fill_page:
  assumes wf: "wf_dirs pds" and i: "i < length pds" and j: "j < 512"
    and fl: "f \<le> l" "l \<le> 512"
  shows "pds[i := (pds ! i)[j := fill_ptes s f l (pds ! i ! j)]] =
         pd_write pds (gen8_index i j f) (replicate (l - f) s)"
proof (rule dirs_eqI)
  show "wf_dirs (pds[i := (pds ! i)[j := fill_ptes s f l (pds ! i ! j)]])"
    using wf i j by (simp add: wf_dirs_update wf_dirs_page)
next
  fix p q e
  assume p: "p < length (pds[i := (pds ! i)[j := fill_ptes s f l (pds ! i ! j)]])"
    and q: "q < (512::nat)" and e: "e < (512::nat)"
  have p': "p < length pds" using p by simp
  have lp: "length (pds ! i ! j) = 512" using wf i j by (rule wf_dirs_page)
  have li: "length (pds ! i) = 512" using wf i by (simp add: wf_dirs_nth)
  have lhs: "pds[i := (pds ! i)[j := fill_ptes s f l (pds ! i ! j)]] ! p ! q =
      (if p = i \<and> q = j then fill_ptes s f l (pds ! i ! j) else pds ! p ! q)"
    using i j li by (intro nth_update_2d) simp_all
  have rhs: "pd_write pds (gen8_index i j f) (replicate (l - f) s) ! p ! q ! e =
      (if gen8_index i j f \<le> gen8_index p q e \<and>
          gen8_index p q e < gen8_index i j f + (l - f)
       then s else pds ! p ! q ! e)"
    using p' q e by (rule pd_write_replicate_nth)
  show "pds[i := (pds ! i)[j := fill_ptes s f l (pds ! i ! j)]] ! p ! q ! e =
        pd_write pds (gen8_index i j f) (replicate (l - f) s) ! p ! q ! e"
  proof (cases "p = i \<and> q = j")
    case True
    then have pi: "p = i" and qj: "q = j" by simp_all
    have "(f \<le> e \<and> e < f + (l - f)) = (f \<le> e \<and> e < l)" using fl(1) by arith
    then have c: "(gen8_index i j f \<le> gen8_index i j e \<and>
        gen8_index i j e < gen8_index i j f + (l - f)) = (f \<le> e \<and> e < l)"
      by (simp only: gen8_index_inside)
    have fe: "fill_ptes s f l (pds ! i ! j) ! e =
        (if f \<le> e \<and> e < l then s else pds ! i ! j ! e)"
      using e lp by (simp add: fill_ptes_nth)
    have l2: "pds[i := (pds ! i)[j := fill_ptes s f l (pds ! i ! j)]] ! i ! j =
        fill_ptes s f l (pds ! i ! j)"
      using lhs[unfolded pi qj] by simp
    show ?thesis unfolding pi qj by (simp only: l2 fe rhs[unfolded pi qj] c)
  next
    case False
    have "f + (l - f) \<le> 512" using fl by simp
    with q j False e have c: "\<not> (gen8_index i j f \<le> gen8_index p q e \<and>
        gen8_index p q e < gen8_index i j f + (l - f))"
      by (rule gen8_index_outside)
    show ?thesis using False c by (simp only: lhs rhs if_False)
  qed
qed simp_all

lemma gen8_store_entry:
  assumes wf: "wf_dirs pds" and i: "i < length pds" and j: "j < 512" and e: "e < 512"
  shows "pds[i := (pds ! i)[j := (pds ! i ! j)[e := v]]] = pd_write pds (gen8_index i j e) [v]"
proof (rule dirs_eqI)
  show "wf_dirs (pds[i := (pds ! i)[j := (pds ! i ! j)[e := v]]])"
    using wf i j by (simp add: wf_dirs_update wf_dirs_page)
next
  fix p q x
  assume p: "p < length (pds[i := (pds ! i)[j := (pds ! i ! j)[e := v]]])"
    and q: "q < (512::nat)" and x: "x < (512::nat)"
  have p': "p < length pds" using p by simp
  have lp: "length (pds ! i ! j) = 512" using wf i j by (rule wf_dirs_page)
  have li: "length (pds ! i) = 512" using wf i by (simp add: wf_dirs_nth)
  have lhs: "pds[i := (pds ! i)[j := (pds ! i ! j)[e := v]]] ! p ! q =
      (if p = i \<and> q = j then (pds ! i ! j)[e := v] else pds ! p ! q)"
    using i j li by (intro nth_update_2d) simp_all
  have "pd_write pds (gen8_index i j e) (replicate 1 v) ! p ! q ! x =
      (if gen8_index i j e \<le> gen8_index p q x \<and> gen8_index p q x < gen8_index i j e + 1
       then v else pds ! p ! q ! x)"
    using p' q x by (rule pd_write_replicate_nth)
  moreover have "replicate 1 v = [v]" by simp
  ultimately have rhs: "pd_write pds (gen8_index i j e) [v] ! p ! q ! x =
      (if gen8_index i j e \<le> gen8_index p q x \<and> gen8_index p q x < gen8_index i j e + 1
       then v else pds ! p ! q ! x)"
    by (simp only:)
  show "pds[i := (pds ! i)[j := (pds ! i ! j)[e := v]]] ! p ! q ! x =
        pd_write pds (gen8_index i j e) [v] ! p ! q ! x"
  proof (cases "p = i \<and> q = j")
    case True
    then have pi: "p = i" and qj: "q = j" by simp_all
    have "(e \<le> x \<and> x < e + 1) = (x = e)" by arith
    then have c: "(gen8_index i j e \<le> gen8_index i j x \<and>
        gen8_index i j x < gen8_index i j e + 1) = (x = e)"
      by (simp only: gen8_index_inside)
    have fe: "(pds ! i ! j)[e := v] ! x = (if x = e then v else pds ! i ! j ! x)"
      using x lp by (simp add: nth_list_update)
    have l2: "pds[i := (pds ! i)[j := (pds ! i ! j)[e := v]]] ! i ! j = (pds ! i ! j)[e := v]"
      using lhs[unfolded pi qj] by simp
    show ?thesis unfolding pi qj by (simp only: l2 fe rhs[unfolded pi qj] c)
  next
    case False
    have "e + 1 \<le> 512" using e by simp
    with q j False x have c: "\<not> (gen8_index i j e \<le> gen8_index p q x \<and>
        gen8_index p q x < gen8_index i j e + 1)"
      by (rule gen8_index_outside)
    show ?thesis using False c by (simp only: lhs rhs if_False)
  qed
qed simp_all

lemma gen8_index_split: "gen8_index i j e = gen8_index i j 0 + e"
  by (simp add: gen8_index_def)

lemma gen8_index_succ_page:
  "j < 512 \<Longrightarrow>
   (if j + 1 = 512 then gen8_index (i + 1) 0 0 else gen8_index i (j + 1) 0) =
   gen8_index i j 0 + 512"
  by (simp add: gen8_index_def)

lemma gen8_index_pdpe_lt:
  assumes "gen8_index i j e + n \<le> L * 262144" "1 \<le> n"
  shows "i < L"
proof (rule ccontr)
  assume "\<not> i < L"
  then have "L \<le> i" by simp
  then have "L * 262144 \<le> i * 262144" by (rule mult_le_mono1)
  moreover have "i * 262144 \<le> gen8_index i j e" by (simp add: gen8_index_def)
  ultimately show False using assms by linarith
qed

lemma gen8_index_page_bound:
  assumes "i < L" "j < 512"
  shows "gen8_index i j 0 + 512 \<le> L * 262144"
proof -
  have "i + 1 \<le> L" using assms(1) by simp
  then have "(i + 1) * 262144 \<le> L * 262144" by (rule mult_le_mono1)
  moreover have "gen8_index i j 0 + 512 \<le> (i + 1) * 262144"
    using assms(2) by (simp add: gen8_index_def)
  ultimately show ?thesis by (rule order_trans[rotated])
qed

lemma gen8_clear_loop_refines:
  assumes "wf_dirs pds" "j < 512" "e < 512" "gen8_index i j e + n \<le> length pds * 262144"
    "e + n < 2 ^ 32"
  shows "gen8_clear_loop s pds i j e n =
         Some (pd_write pds (gen8_index i j e) (replicate n s))"
  using assms
proof (induction k \<equiv> "length pds * 512 - (i * 512 + j)" arbitrary: pds i j e n)
  case 0
  have "n = 0"
  proof (rule ccontr)
    assume "n \<noteq> 0"
    then have "i < length pds" using "0.prems"(4) by (intro gen8_index_pdpe_lt[of i j e n]) simp_all
    then have "i * 512 + j < length pds * 512" using "0.prems"(2) by simp
    then show False using "0.hyps" by simp
  qed
  then show ?case using "0.prems"(1) by (subst gen8_clear_loop.simps) (simp add: pd_write_Nil)
next
  case (Suc k)
  show ?case
  proof (cases "n = 0")
    case True
    then show ?thesis using Suc.prems(1) by (subst gen8_clear_loop.simps) (simp add: pd_write_Nil)
  next
    case False
    define l where "l = (if e + n > 512 then 512 else e + n)"
    define pds1 where "pds1 = pds[i := (pds ! i)[j := fill_ptes s e l (pds ! i ! j)]]"
    define n' where "n' = n - (l - e)"
    define i' where "i' = (if j + 1 = 512 then i + 1 else i)"
    define j' where "j' = (if j + 1 = 512 then 0 else j + 1)"
    have i: "i < length pds" using Suc.prems(4) False by (intro gen8_index_pdpe_lt[of i j e n]) simp_all
    have li: "length (pds ! i) = 512" using Suc.prems(1) i by (simp add: wf_dirs_nth)
    have l: "e \<le> l" "l \<le> 512" "l - e \<le> n" using Suc.prems(3) False by (auto simp: l_def)
    have n32: "n < 2 ^ 32" using Suc.prems(5) by simp
    have ua: "u32_add e n = e + n" using Suc.prems(5) by (rule u32_add_small)
    have fp: "gen8_fill_ptes s e l (pds ! i ! j) n = (fill_ptes s e l (pds ! i ! j), n')"
      unfolding n'_def using l(3) n32 by (rule gen8_fill_ptes_eq)
    have p1: "pds1 = pd_write pds (gen8_index i j e) (replicate (l - e) s)"
      unfolding pds1_def using Suc.prems(1) i Suc.prems(2) l(1,2) by (rule gen8_fill_page)
    have step: "gen8_clear_loop s pds i j e n = gen8_clear_loop s pds1 i' j' 0 n'"
      using False i li Suc.prems(2) ua fp
      by (subst gen8_clear_loop.simps) (simp add: Let_def l_def pds1_def i'_def j'_def)
    have nx: "gen8_index i' j' 0 = gen8_index i j 0 + 512"
      unfolding i'_def j'_def gen8_index_def by simp
    have ih: "gen8_clear_loop s pds1 i' j' 0 n' =
        Some (pd_write pds1 (gen8_index i' j' 0) (replicate n' s))"
    proof (rule Suc.hyps(1))
      have "i' * 512 + j' = i * 512 + j + 1" unfolding i'_def j'_def by simp
      then show "k = length pds1 * 512 - (i' * 512 + j')"
        using Suc.hyps(2) by (simp add: p1)
      show "wf_dirs pds1" by (simp add: p1)
      show "j' < 512" using Suc.prems(2) by (simp add: j'_def)
      show "(0::nat) < 512" by simp
      show "gen8_index i' j' 0 + n' \<le> length pds1 * 262144"
      proof (cases "e + n > 512")
        case True
        then have "gen8_index i j 0 + 512 + n' = gen8_index i j 0 + e + n"
          using Suc.prems(3) by (simp add: n'_def l_def)
        then show ?thesis using Suc.prems(4) gen8_index_split[of i j e] by (simp add: nx p1)
      next
        case False
        then have "n' = 0" by (simp add: n'_def l_def)
        then show ?thesis using gen8_index_page_bound[OF i Suc.prems(2)] by (simp add: nx p1)
      qed
      show "0 + n' < 2 ^ 32" using n32 by (simp add: n'_def)
    qed
    have "pd_write pds1 (gen8_index i' j' 0) (replicate n' s) =
          pd_write pds (gen8_index i j e) (replicate n s)"
    proof (cases "e + n > 512")
      case True
      then have e: "gen8_index i' j' 0 = gen8_index i j e + length (replicate (l - e) s)"
        using l gen8_index_split[of i j e] by (simp add: l_def nx)
      have "replicate (l - e) s @ replicate n' s = replicate n s"
        using l by (simp add: n'_def replicate_add[symmetric])
      then show ?thesis unfolding p1 e pd_write_append by simp
    next
      case False
      then have "n' = 0" "l - e = n" by (simp_all add: n'_def l_def)
      then show ?thesis by (simp add: p1 pd_write_Nil)
    qed
    then show ?thesis using step ih by simp
  qed
qed

lemma gen8_insert_loop_refines:
  assumes "wf_dirs pds" "j < 512" "e < 512" "length pds \<le> 4"
    "gen8_index i j e + length sg \<le> length pds * 262144"
  shows "gen8_insert_loop enc pds i j e sg =
         Some (pd_write pds (gen8_index i j e) (map enc sg))"
  using assms
proof (induction sg arbitrary: pds i j e)
  case Nil
  then show ?case by (simp add: pd_write_Nil)
next
  case (Cons addr sg)
  define pds1 where "pds1 = pds[i := (pds ! i)[j := (pds ! i ! j)[e := enc addr]]]"
  define e' where "e' = (if e + 1 = 512 then 0 else e + 1)"
  define j' where "j' = (if e + 1 = 512 then (if j + 1 = 512 then 0 else j + 1) else j)"
  define i' where "i' = (if e + 1 = 512 \<and> j + 1 = 512 then i + 1 else i)"
  have i: "i < length pds"
    using Cons.prems(5) by (intro gen8_index_pdpe_lt[of i j e "length (addr # sg)"]) simp_all
  have i4: "\<not> 4 \<le> i" using i Cons.prems(4) by simp
  have li: "length (pds ! i) = 512" using Cons.prems(1) i by (simp add: wf_dirs_nth)
  have p1: "pds1 = pd_write pds (gen8_index i j e) [enc addr]"
    unfolding pds1_def using Cons.prems(1) i Cons.prems(2,3) by (rule gen8_store_entry)
  have wf1: "wf_dirs pds1" by (simp add: p1)
  have len1: "length pds1 = length pds" by (simp add: p1)
  have app: "pd_write pds1 (gen8_index i j e + 1) (map enc sg) =
             pd_write pds (gen8_index i j e) (map enc (addr # sg))"
    using pd_write_append[of pds "gen8_index i j e" "[enc addr]" "map enc sg"]
    by (simp add: p1)
  have rng: "gen8_index i j e + 1 + length sg \<le> length pds1 * 262144"
    using Cons.prems(5) by (simp add: len1)
  have nx: "gen8_index i' j' e' = gen8_index i j e + 1"
    unfolding i'_def j'_def e'_def gen8_index_def by simp
  have step: "gen8_insert_loop enc pds i j e (addr # sg) = gen8_insert_loop enc pds1 i' j' e' sg"
    using i i4 li Cons.prems(2) by (simp add: Let_def pds1_def i'_def j'_def e'_def)
  have ih: "gen8_insert_loop enc pds1 i' j' e' sg =
          Some (pd_write pds1 (gen8_index i' j' e') (map enc sg))"
  proof (rule Cons.IH)
    show "wf_dirs pds1" by fact
    show "j' < 512" using Cons.prems(2) by (simp add: j'_def)
    show "e' < 512" using Cons.prems(3) by (simp add: e'_def)
    show "length pds1 \<le> 4" using Cons.prems(4) by (simp add: len1)
    show "gen8_index i' j' e' + length sg \<le> length pds1 * 262144"
      using rng by (simp only: nx)
  qed
  show ?case by (simp only: step ih nx app)
qed

lemma lt_2_32: "n \<le> 1048576 \<Longrightarrow> n < (2::nat) ^ 32"
proof -
  assume "n \<le> 1048576"
  moreover have "(1048576::nat) < 2 ^ 32" by simp
  ultimately show ?thesis by (rule le_less_trans)
qed

lemma small_mod_2_32: "n \<le> 1048576 \<Longrightarrow> n mod 2 ^ 32 = (n::nat)"
  by (rule mod_less) (rule lt_2_32)

lemma unat_and_mask_64: "unat ((w :: 64 word) AND mask k) = unat w mod 2 ^ k"
proof -
  have "w AND mask k = take_bit k w" by (simp add: take_bit_eq_mask)
  then have "unat (w AND mask k) = take_bit k (unat w)" by (simp only: unsigned_take_bit_eq)
  then show ?thesis by (simp only: take_bit_eq_mod)
qed

lemma unat_shr_64: "unat (drop_bit k (w :: 64 word)) = unat w div 2 ^ k"
proof -
  have "unat (drop_bit k w) = drop_bit k (unat w)" by (rule unat_drop_bit_eq)
  then show ?thesis by (simp only: drop_bit_eq_div)
qed

lemma to_unsigned_pfn:
  assumes "unat x = s * 4096" "s \<le> 1048576"
  shows "to_unsigned (drop_bit 12 x) = s"
proof -
  have "unat (drop_bit 12 x) = s" by (simp add: unat_shr_64 assms(1))
  then show ?thesis using small_mod_2_32[OF assms(2)] by (simp only: to_unsigned_def)
qed

lemma gen8_decompose:
  assumes "unat (x :: 64 word) = s * 4096" "s < 1048576"
  shows "to_unsigned (drop_bit 30 x AND 3) = s div 262144"
    and "to_unsigned (drop_bit 21 x AND 511) = s div 512 mod 512"
    and "to_unsigned (drop_bit 12 x AND 511) = s mod 512"
proof -
  have m3: "(3 :: 64 word) = mask 2" and m511: "(511 :: 64 word) = mask 9"
    by (simp_all add: mask_eq_exp_minus_1)
  have d30: "s * 4096 div 2 ^ 30 = s div 262144" 
    using div_mult2_eq[of "s * 4096" 4096 262144] by simp
  have d21: "s * 4096 div 2 ^ 21 = s div 512"
    using div_mult2_eq[of "s * 4096" 4096 512] by simp
  have a: "unat (drop_bit 30 x AND 3) = s div 262144"
    using assms(2) by (simp add: m3 unat_and_mask_64 unat_shr_64 assms(1) d30)
  have b: "unat (drop_bit 21 x AND 511) = s div 512 mod 512"
    by (simp add: m511 unat_and_mask_64 unat_shr_64 assms(1) d21)
  have c: "unat (drop_bit 12 x AND 511) = s mod 512"
    by (simp add: m511 unat_and_mask_64 unat_shr_64 assms(1))
  have "s div 262144 \<le> 1048576" using assms(2) by simp
  then have a': "s div 262144 mod 2 ^ 32 = s div 262144" by (rule small_mod_2_32)
  have "s div 512 mod 512 \<le> 1048576" by simp
  then have b': "s div 512 mod 512 mod 2 ^ 32 = s div 512 mod 512" by (rule small_mod_2_32)
  have "s mod 512 \<le> 1048576" by simp
  then have c': "s mod 512 mod 2 ^ 32 = s mod 512" by (rule small_mod_2_32)
  show "to_unsigned (drop_bit 30 x AND 3) = s div 262144"
    by (simp only: to_unsigned_def a a')
  show "to_unsigned (drop_bit 21 x AND 511) = s div 512 mod 512"
    by (simp only: to_unsigned_def b b')
  show "to_unsigned (drop_bit 12 x AND 511) = s mod 512"
    by (simp only: to_unsigned_def c c')
qed

lemma gen8_index_div_mod:
  "gen8_index (s div 262144) (s div 512 mod 512) (s mod 512) = s"
proof -
  have "s div 262144 = s div 512 div 512" using div_mult2_eq[of s 512 512] by simp
  then show ?thesis by (simp add: gen8_index_def)
qed

lemma gen6_clear_range_eq:
  assumes sp: "gen6_space ppgtt" and rg: "gen6_range ppgtt start s n"
    and ln: "unat len = n * PAGE_SIZE"
  shows "gen6_ppgtt_clear_range ppgtt start len us =
         Some (ppgtt\<lparr>pt_pages := pt_write 1024 (pt_pages ppgtt) s
                 (replicate n (gen6_scratch_pte ppgtt))\<rparr>)"
proof -
  have wf: "wf_tables 1024 (pt_pages ppgtt)" and l: "length (pt_pages ppgtt) \<le> 512"
    using sp by (simp_all add: gen6_space_def)
  have st: "unat start = s * 4096" and r: "s + n \<le> length (pt_pages ppgtt) * 1024"
    using rg by (simp_all add: gen6_range_def)
  have b: "s \<le> 1048576" "n \<le> 1048576" "s mod 1024 + n \<le> 1048576" using r l by simp_all
  have fe: "to_unsigned (drop_bit 12 start) = s" using st b(1) by (rule to_unsigned_pfn)
  have ne: "to_unsigned (drop_bit 12 len) = n" using ln b(2) by (rule to_unsigned_pfn)
  have "gen6_clear_loop (gen6_scratch_pte ppgtt) (pt_pages ppgtt) (s div 1024) (s mod 1024) n =
        Some (pt_write 1024 (pt_pages ppgtt) (s div 1024 * 1024 + s mod 1024)
               (replicate n (gen6_scratch_pte ppgtt)))"
    using wf r lt_2_32[OF b(3)] by (intro gen6_clear_loop_refines) simp_all
  then show ?thesis
    by (simp add: gen6_ppgtt_clear_range_def fe ne gen6_scratch_pte_def Let_def)
qed

lemma gen6_insert_entries_eq:
  assumes sp: "gen6_space ppgtt" and rg: "gen6_range ppgtt start s (length pages)"
  shows "gen6_ppgtt_insert_entries ppgtt pages start lvl fl =
         Some (ppgtt\<lparr>pt_pages := pt_write 1024 (pt_pages ppgtt) s
                 (map (\<lambda>addr. fst (pte_encode ppgtt addr lvl True fl)) pages)\<rparr>)"
proof -
  have wf: "wf_tables 1024 (pt_pages ppgtt)" and l: "length (pt_pages ppgtt) \<le> 512"
    using sp by (simp_all add: gen6_space_def)
  have st: "unat start = s * 4096"
    and r: "s + length pages \<le> length (pt_pages ppgtt) * 1024"
    using rg by (simp_all add: gen6_range_def)
  have b: "s \<le> 1048576" using r l by simp
  have fe: "to_unsigned (drop_bit 12 start) = s" using st b(1) by (rule to_unsigned_pfn)
  have "gen6_insert_loop (\<lambda>addr. fst (pte_encode ppgtt addr lvl True fl)) (pt_pages ppgtt)
          (s div 1024) (s mod 1024) pages =
        Some (pt_write 1024 (pt_pages ppgtt) (s div 1024 * 1024 + s mod 1024)
               (map (\<lambda>addr. fst (pte_encode ppgtt addr lvl True fl)) pages))"
    using wf r by (intro gen6_insert_loop_refines) simp_all
  then show ?thesis
    by (simp add: gen6_ppgtt_insert_entries_def fe Let_def)
qed

lemma gen8_clear_range_eq:
  assumes sp: "gen8_space ppgtt" and rg: "gen8_range ppgtt start s n"
    and ln: "unat len = n * PAGE_SIZE"
  shows "gen8_ppgtt_clear_range h ppgtt start len True =
         Some (ppgtt\<lparr>gen8_pt_pages := pd_write (gen8_pt_pages ppgtt) s
                 (replicate n (gen8_scratch_pte h ppgtt))\<rparr>)"
proof -
  have wf: "wf_dirs (gen8_pt_pages ppgtt)" and l: "length (gen8_pt_pages ppgtt) \<le> 4"
    using sp by (simp_all add: gen8_space_def)
  have st: "unat start = s * 4096"
    and r: "s + n \<le> length (gen8_pt_pages ppgtt) * 262144"
    using rg by (simp_all add: gen8_range_def)
  have nb: "n \<le> 1048576" using r l by linarith
  have ne: "to_unsigned (drop_bit 12 len) = n" using ln nb by (rule to_unsigned_pfn)
  show ?thesis
  proof (cases "n = 0")
    case True
    then show ?thesis using wf
      by (simp add: gen8_ppgtt_clear_range_def ne Let_def pd_write_Nil gen8_clear_loop.simps)
  next
    case False
    then have b: "s < 1048576" "s mod 512 + n \<le> 1048576" using r l by simp_all
    note d = gen8_decompose[OF st b(1)]
    have "gen8_clear_loop (gen8_scratch_pte h ppgtt) (gen8_pt_pages ppgtt)
            (s div 262144) (s div 512 mod 512) (s mod 512) n =
          Some (pd_write (gen8_pt_pages ppgtt)
                 (gen8_index (s div 262144) (s div 512 mod 512) (s mod 512))
                 (replicate n (gen8_scratch_pte h ppgtt)))"
      using wf r lt_2_32[OF b(2)]
      by (intro gen8_clear_loop_refines) (simp_all add: gen8_index_div_mod)
    then show ?thesis
      by (simp add: gen8_ppgtt_clear_range_def d ne gen8_scratch_pte_def Let_def
          gen8_index_div_mod)
  qed
qed

lemma gen8_insert_entries_eq:
  assumes sp: "gen8_space ppgtt" and rg: "gen8_range ppgtt start s (length pages)"
  shows "gen8_ppgtt_insert_entries h ppgtt pages start lvl fl =
         Some (ppgtt\<lparr>gen8_pt_pages := pd_write (gen8_pt_pages ppgtt) s
                 (map (\<lambda>addr. fst (gen8_pte_encode h addr lvl True)) pages)\<rparr>)"
proof -
  have wf: "wf_dirs (gen8_pt_pages ppgtt)" and l: "length (gen8_pt_pages ppgtt) \<le> 4"
    using sp by (simp_all add: gen8_space_def)
  have st: "unat start = s * 4096"
    and r: "s + length pages \<le> length (gen8_pt_pages ppgtt) * 262144"
    using rg by (simp_all add: gen8_range_def)
  show ?thesis
  proof (cases pages)
    case Nil
    then show ?thesis using wf
      by (simp add: gen8_ppgtt_insert_entries_def Let_def pd_write_Nil)
  next
    case (Cons a list)
    then have "0 < length pages" by simp
    with r l have b: "s < 1048576" by linarith
    note d = gen8_decompose[OF st b]
    have "gen8_insert_loop (\<lambda>addr. fst (gen8_pte_encode h addr lvl True))
            (gen8_pt_pages ppgtt) (s div 262144) (s div 512 mod 512) (s mod 512) pages =
          Some (pd_write (gen8_pt_pages ppgtt)
                 (gen8_index (s div 262144) (s div 512 mod 512) (s mod 512))
                 (map (\<lambda>addr. fst (gen8_pte_encode h addr lvl True)) pages))"
      using wf r l
      by (intro gen8_insert_loop_refines) (simp_all add: gen8_index_div_mod)
    then show ?thesis
      by (simp add: gen8_ppgtt_insert_entries_def d Let_def gen8_index_div_mod)
  qed
qed

lemma gen6_space_update [simp]:
  "gen6_space (ppgtt\<lparr>pt_pages := pt_write 1024 (pt_pages ppgtt) lo vs\<rparr>) =
   (length (pt_pages ppgtt) \<le> 512)"
  by (simp add: gen6_space_def)

lemma gen6_range_update [simp]:
  "gen6_range (ppgtt\<lparr>pt_pages := pt_write 1024 (pt_pages ppgtt) lo vs\<rparr>) start s n =
   gen6_range ppgtt start s n"
  by (simp add: gen6_range_def)

lemma gen8_space_update [simp]:
  "gen8_space (ppgtt\<lparr>gen8_pt_pages := pd_write (gen8_pt_pages ppgtt) lo vs\<rparr>) =
   (length (gen8_pt_pages ppgtt) \<le> 4)"
  by (simp add: gen8_space_def)

lemma gen8_range_update [simp]:
  "gen8_range (ppgtt\<lparr>gen8_pt_pages := pd_write (gen8_pt_pages ppgtt) lo vs\<rparr>) start s n =
   gen8_range ppgtt start s n"
  by (simp add: gen8_range_def)

lemma gen6_scratch_pte_update [simp]:
  "gen6_scratch_pte (ppgtt\<lparr>pt_pages := pts\<rparr>) = gen6_scratch_pte ppgtt"
  by (simp add: gen6_scratch_pte_def)

lemma gen8_scratch_pte_update [simp]:
  "gen8_scratch_pte h (ppgtt\<lparr>gen8_pt_pages := pds\<rparr>) = gen8_scratch_pte h ppgtt"
  by (simp add: gen8_scratch_pte_def)

lemma pt_write_overwrite:
  "length vs = length ws \<Longrightarrow> pt_write n (pt_write n pts lo vs) lo ws = pt_write n pts lo ws"
  by (rule tables_eqI[where n = n]) (auto simp add: pt_write_nth)

lemma pd_write_overwrite:
  "length vs = length ws \<Longrightarrow> pd_write (pd_write pds lo vs) lo ws = pd_write pds lo ws"
  by (rule dirs_eqI) (auto simp add: pd_write_nth)

lemma pt_write_same:
  assumes "wf_tables n pts"
    and "\<And>p e. p < length pts \<Longrightarrow> e < n \<Longrightarrow> lo \<le> p * n + e \<Longrightarrow> p * n + e < lo + length vs \<Longrightarrow>
           pts ! p ! e = vs ! (p * n + e - lo)"
  shows "pt_write n pts lo vs = pts"
  using assms by (intro tables_eqI[where n = n]) (auto simp add: pt_write_nth)

lemma pd_write_same:
  assumes "wf_dirs pds"
    and "\<And>i j e. i < length pds \<Longrightarrow> j < 512 \<Longrightarrow> e < 512 \<Longrightarrow> lo \<le> gen8_index i j e \<Longrightarrow>
           gen8_index i j e < lo + length vs \<Longrightarrow> pds ! i ! j ! e = vs ! (gen8_index i j e - lo)"
  shows "pd_write pds lo vs = pds"
  using assms by (intro dirs_eqI) (auto simp add: pd_write_nth)

lemma gen6_insert_then_clear:
  assumes sp: "gen6_space ppgtt" and rg: "gen6_range ppgtt start s (length pages)"
    and ln: "unat len = length pages * PAGE_SIZE"
  shows "Option.bind (gen6_ppgtt_insert_entries ppgtt pages start lvl fl)
           (\<lambda>p. gen6_ppgtt_clear_range p start len True) =
         Some (ppgtt\<lparr>pt_pages := pt_write 1024 (pt_pages ppgtt) s
                 (replicate (length pages) (gen6_scratch_pte ppgtt))\<rparr>)"
proof -
  let ?mid = "ppgtt\<lparr>pt_pages := pt_write 1024 (pt_pages ppgtt) s
                 (map (\<lambda>addr. fst (pte_encode ppgtt addr lvl True fl)) pages)\<rparr>"
  have l: "length (pt_pages ppgtt) \<le> 512" using sp by (simp add: gen6_space_def)
  have i: "gen6_ppgtt_insert_entries ppgtt pages start lvl fl = Some ?mid"
    using sp rg by (rule gen6_insert_entries_eq)
  have "gen6_space ?mid" "gen6_range ?mid start s (length pages)" using l rg by simp_all
  then have "gen6_ppgtt_clear_range ?mid start len True =
      Some (?mid\<lparr>pt_pages := pt_write 1024 (pt_pages ?mid) s
                 (replicate (length pages) (gen6_scratch_pte ?mid))\<rparr>)"
    using ln by (rule gen6_clear_range_eq)
  then show ?thesis by (simp add: i pt_write_overwrite)
qed

lemma gen8_insert_then_clear:
  assumes sp: "gen8_space ppgtt" and rg: "gen8_range ppgtt start s (length pages)"
    and ln: "unat len = length pages * PAGE_SIZE"
  shows "Option.bind (gen8_ppgtt_insert_entries h ppgtt pages start lvl fl)
           (\<lambda>p. gen8_ppgtt_clear_range h p start len True) =
         Some (ppgtt\<lparr>gen8_pt_pages := pd_write (gen8_pt_pages ppgtt) s
                 (replicate (length pages) (gen8_scratch_pte h ppgtt))\<rparr>)"
proof -
  let ?mid = "ppgtt\<lparr>gen8_pt_pages := pd_write (gen8_pt_pages ppgtt) s
                 (map (\<lambda>addr. fst (gen8_pte_encode h addr lvl True)) pages)\<rparr>"
  have l: "length (gen8_pt_pages ppgtt) \<le> 4" using sp by (simp add: gen8_space_def)
  have i: "gen8_ppgtt_insert_entries h ppgtt pages start lvl fl = Some ?mid"
    using sp rg by (rule gen8_insert_entries_eq)
  have "gen8_space ?mid" "gen8_range ?mid start s (length pages)" using l rg by simp_all
  then have "gen8_ppgtt_clear_range h ?mid start len True =
      Some (?mid\<lparr>gen8_pt_pages := pd_write (gen8_pt_pages ?mid) s
                 (replicate (length pages) (gen8_scratch_pte h ?mid))\<rparr>)"
    using ln by (rule gen8_clear_range_eq)
  then show ?thesis by (simp add: i pd_write_overwrite)
qed

lemma gen6_round_trip:
  assumes sp: "gen6_space ppgtt" and rg: "gen6_range ppgtt start s (length pages)"
    and ln: "unat len = length pages * PAGE_SIZE"
  shows "\<exists>ppgtt'.
      Option.bind (gen6_ppgtt_insert_entries ppgtt pages start lvl fl)
        (\<lambda>p. gen6_ppgtt_clear_range p start len True) = Some ppgtt'
    \<and> length (pt_pages ppgtt') = length (pt_pages ppgtt)
    \<and> (\<forall>p<length (pt_pages ppgtt). \<forall>e<I915_PPGTT_PT_ENTRIES.
          pt_pages ppgtt' ! p ! e =
            (if s \<le> p * I915_PPGTT_PT_ENTRIES + e \<and>
                p * I915_PPGTT_PT_ENTRIES + e < s + length pages
             then gen6_scratch_pte ppgtt else pt_pages ppgtt ! p ! e))
    \<and> ((\<forall>p<length (pt_pages ppgtt). \<forall>e<I915_PPGTT_PT_ENTRIES.
           s \<le> p * I915_PPGTT_PT_ENTRIES + e \<and>
           p * I915_PPGTT_PT_ENTRIES + e < s + length pages \<longrightarrow>
           pt_pages ppgtt ! p ! e = gen6_scratch_pte ppgtt) \<longrightarrow> ppgtt' = ppgtt)"
proof -
  let ?r = "pt_write 1024 (pt_pages ppgtt) s (replicate (length pages) (gen6_scratch_pte ppgtt))"
  have wf: "wf_tables 1024 (pt_pages ppgtt)" using sp by (simp add: gen6_space_def)
  have a: "Option.bind (gen6_ppgtt_insert_entries ppgtt pages start lvl fl)
        (\<lambda>p. gen6_ppgtt_clear_range p start len True) = Some (ppgtt\<lparr>pt_pages := ?r\<rparr>)"
    using sp rg ln by (rule gen6_insert_then_clear)
  have b: "\<forall>p<length (pt_pages ppgtt). \<forall>e<1024.
          ?r ! p ! e = (if s \<le> p * 1024 + e \<and> p * 1024 + e < s + length pages
             then gen6_scratch_pte ppgtt else pt_pages ppgtt ! p ! e)"
    by (auto simp add: pt_write_nth)
  have c: "(\<forall>p<length (pt_pages ppgtt). \<forall>e<1024.
           s \<le> p * 1024 + e \<and> p * 1024 + e < s + length pages \<longrightarrow>
           pt_pages ppgtt ! p ! e = gen6_scratch_pte ppgtt) \<longrightarrow> ppgtt\<lparr>pt_pages := ?r\<rparr> = ppgtt"
  proof
    assume h: "\<forall>p<length (pt_pages ppgtt). \<forall>e<1024.
           s \<le> p * 1024 + e \<and> p * 1024 + e < s + length pages \<longrightarrow>
           pt_pages ppgtt ! p ! e = gen6_scratch_pte ppgtt"
    have "?r = pt_pages ppgtt" using wf h by (intro pt_write_same) auto
    then show "ppgtt\<lparr>pt_pages := ?r\<rparr> = ppgtt" by simp
  qed
  show ?thesis
    by (rule exI[of _ "ppgtt\<lparr>pt_pages := ?r\<rparr>"]) (use a b c in simp)
qed

lemma gen8_round_trip:
  assumes sp: "gen8_space ppgtt" and rg: "gen8_range ppgtt start s (length pages)"
    and ln: "unat len = length pages * PAGE_SIZE"
  shows "\<exists>ppgtt'.
      Option.bind (gen8_ppgtt_insert_entries h ppgtt pages start lvl fl)
        (\<lambda>p. gen8_ppgtt_clear_range h p start len True) = Some ppgtt'
    \<and> length (gen8_pt_pages ppgtt') = length (gen8_pt_pages ppgtt)
    \<and> (\<forall>i<length (gen8_pt_pages ppgtt). \<forall>j<GEN8_PDES_PER_PAGE. \<forall>e<GEN8_PTES_PER_PAGE.
          gen8_pt_pages ppgtt' ! i ! j ! e =
            (if s \<le> gen8_index i j e \<and> gen8_index i j e < s + length pages
             then gen8_scratch_pte h ppgtt else gen8_pt_pages ppgtt ! i ! j ! e))
    \<and> ((\<forall>i<length (gen8_pt_pages ppgtt). \<forall>j<GEN8_PDES_PER_PAGE. \<forall>e<GEN8_PTES_PER_PAGE.
           s \<le> gen8_index i j e \<and> gen8_index i j e < s + length pages \<longrightarrow>
           gen8_pt_pages ppgtt ! i ! j ! e = gen8_scratch_pte h ppgtt) \<longrightarrow> ppgtt' = ppgtt)"
proof -
  let ?r = "pd_write (gen8_pt_pages ppgtt) s (replicate (length pages) (gen8_scratch_pte h ppgtt))"
  have wf: "wf_dirs (gen8_pt_pages ppgtt)" using sp by (simp add: gen8_space_def)
  have a: "Option.bind (gen8_ppgtt_insert_entries h ppgtt pages start lvl fl)
        (\<lambda>p. gen8_ppgtt_clear_range h p start len True) = Some (ppgtt\<lparr>gen8_pt_pages := ?r\<rparr>)"
    using sp rg ln by (rule gen8_insert_then_clear)
  have b: "\<forall>i<length (gen8_pt_pages ppgtt). \<forall>j<512. \<forall>e<512.
          ?r ! i ! j ! e = (if s \<le> gen8_index i j e \<and> gen8_index i j e < s + length pages
             then gen8_scratch_pte h ppgtt else gen8_pt_pages ppgtt ! i ! j ! e)"
    by (simp add: pd_write_replicate_nth)
  have c: "(\<forall>i<length (gen8_pt_pages ppgtt). \<forall>j<512. \<forall>e<512.
           s \<le> gen8_index i j e \<and> gen8_index i j e < s + length pages \<longrightarrow>
           gen8_pt_pages ppgtt ! i ! j ! e = gen8_scratch_pte h ppgtt) \<longrightarrow>
        ppgtt\<lparr>gen8_pt_pages := ?r\<rparr> = ppgtt"
  proof
    assume h: "\<forall>i<length (gen8_pt_pages ppgtt). \<forall>j<512. \<forall>e<512.
           s \<le> gen8_index i j e \<and> gen8_index i j e < s + length pages \<longrightarrow>
           gen8_pt_pages ppgtt ! i ! j ! e = gen8_scratch_pte h ppgtt"
    have "?r = gen8_pt_pages ppgtt" using wf h by (intro pd_write_same) auto
    then show "ppgtt\<lparr>gen8_pt_pages := ?r\<rparr> = ppgtt" by simp
  qed
  show ?thesis
    by (rule exI[of _ "ppgtt\<lparr>gen8_pt_pages := ?r\<rparr>"]) (use a b c in simp)
qed

lemma wf_tables_replicate [simp]: "wf_tables n (replicate k (replicate n x))"
  by (simp add: wf_tables_def list_all_iff)

lemma wf_dirs_replicate [simp]: "wf_dirs (replicate k (replicate 512 (replicate 512 x)))"
  by (simp add: wf_dirs_def list_all_iff)

lemma example_ppgtt6_space: "gen6_space example_ppgtt6"
  by (simp add: gen6_space_def example_ppgtt6_def)

lemma example_ppgtt8_space: "gen8_space example_ppgtt8"
  by (simp add: gen8_space_def example_ppgtt8_def wf_dirs_def)

lemma example_ppgtt6_scratch: "gen6_scratch_pte example_ppgtt6 = 0x1005"
  by (simp add: gen6_scratch_pte_def example_ppgtt6_def snb_pte_encode_def i915_hdr_def)

lemma example_ppgtt8_scratch: "gen8_scratch_pte i915_hdr example_ppgtt8 = 0x1083"
  by (simp add: gen8_scratch_pte_def example_ppgtt8_def gen8_pte_encode_def i915_hdr_def)

lemma mapped_ppgtt6_space: "gen6_space mapped_ppgtt6"
  by (simp add: gen6_space_def mapped_ppgtt6_def example_ppgtt6_def wf_tables_def)

lemma mapped_ppgtt6_scratch: "gen6_scratch_pte mapped_ppgtt6 = 0x1005"
  by (simp add: gen6_scratch_pte_def mapped_ppgtt6_def example_ppgtt6_def
      snb_pte_encode_def i915_hdr_def)

lemma gen8_clear_range_any:
  assumes sp: "gen8_space ppgtt" and rg: "gen8_range ppgtt start s n"
    and ln: "unat len = n * PAGE_SIZE"
  shows "gen8_ppgtt_clear_range h ppgtt start len us =
         Some (ppgtt\<lparr>gen8_pt_pages := pd_write (gen8_pt_pages ppgtt) s
                 (replicate n (fst (gen8_pte_encode h (scratch_addr ppgtt) I915_CACHE_LLC us)))\<rparr>)"
proof -
  have wf: "wf_dirs (gen8_pt_pages ppgtt)" and l: "length (gen8_pt_pages ppgtt) \<le> 4"
    using sp by (simp_all add: gen8_space_def)
  have st: "unat start = s * 4096"
    and r: "s + n \<le> length (gen8_pt_pages ppgtt) * 262144"
    using rg by (simp_all add: gen8_range_def)
  have nb: "n \<le> 1048576" using r l by linarith
  have ne: "to_unsigned (drop_bit 12 len) = n" using ln nb by (rule to_unsigned_pfn)
  show ?thesis
  proof (cases "n = 0")
    case True
    then show ?thesis using wf
      by (simp add: gen8_ppgtt_clear_range_def ne Let_def pd_write_Nil gen8_clear_loop.simps)
  next
    case False
    then have b: "s < 1048576" "s mod 512 + n \<le> 1048576" using r l by simp_all
    note d = gen8_decompose[OF st b(1)]
    have "gen8_clear_loop (fst (gen8_pte_encode h (scratch_addr ppgtt) I915_CACHE_LLC us))
            (gen8_pt_pages ppgtt) (s div 262144) (s div 512 mod 512) (s mod 512) n =
          Some (pd_write (gen8_pt_pages ppgtt)
                 (gen8_index (s div 262144) (s div 512 mod 512) (s mod 512))
                 (replicate n (fst (gen8_pte_encode h (scratch_addr ppgtt) I915_CACHE_LLC us))))"
      using wf r lt_2_32[OF b(2)]
      by (intro gen8_clear_loop_refines) (simp_all add: gen8_index_div_mod)
    then show ?thesis
      by (simp add: gen8_ppgtt_clear_range_def d ne Let_def gen8_index_div_mod)
  qed
qed












subsection \<open>Unbinding\<close>

lemma ggtt_unbind_flags:
  assumes "ggtt_unbind_vma gc ac st v = Some st'"
  shows "\<not> has_global_gtt_mapping st' \<and> \<not> has_aliasing_ppgtt_mapping st'"
  using assms
  by (auto simp add: ggtt_unbind_vma_def split: if_splits option.splits)

lemma ggtt_unbind_unbound:
  "\<not> has_global_gtt_mapping st \<Longrightarrow> \<not> has_aliasing_ppgtt_mapping st \<Longrightarrow>
   ggtt_unbind_vma gc ac st v = Some st"
  by (simp add: ggtt_unbind_vma_def)

lemma ggtt_unbind_twice:
  "Option.bind (ggtt_unbind_vma gc ac st v) (\<lambda>st'. ggtt_unbind_vma gc ac st' v) =
   ggtt_unbind_vma gc ac st v"
proof (cases "ggtt_unbind_vma gc ac st v")
  case None
  then show ?thesis by simp
next
  case (Some st')
  from ggtt_unbind_flags[OF Some] have "ggtt_unbind_vma gc ac st' v = Some st'"
    by (simp add: ggtt_unbind_unbound)
  with Some show ?thesis by simp
qed

lemma gen6_unbind_once:
  assumes "gen6_space ppgtt" "gen6_range ppgtt (node_start vma) s n"
    "unat (obj_size vma) = n * PAGE_SIZE"
  shows "ppgtt_unbind_vma gen6_ppgtt_clear_range ppgtt vma =
         Some (ppgtt\<lparr>pt_pages := pt_write 1024 (pt_pages ppgtt) s
                 (replicate n (gen6_scratch_pte ppgtt))\<rparr>)"
  unfolding ppgtt_unbind_vma_def using assms by (rule gen6_clear_range_eq)

lemma gen6_unbind_twice:
  assumes "gen6_space ppgtt" "gen6_range ppgtt (node_start vma) s n"
    "unat (obj_size vma) = n * PAGE_SIZE"
  shows "Option.bind (ppgtt_unbind_vma gen6_ppgtt_clear_range ppgtt vma)
           (\<lambda>p. ppgtt_unbind_vma gen6_ppgtt_clear_range p vma) =
         ppgtt_unbind_vma gen6_ppgtt_clear_range ppgtt vma"
proof -
  let ?p = "ppgtt\<lparr>pt_pages := pt_write 1024 (pt_pages ppgtt) s
                 (replicate n (gen6_scratch_pte ppgtt))\<rparr>"
  have l: "length (pt_pages ppgtt) \<le> 512" using assms(1) by (simp add: gen6_space_def)
  have sp: "gen6_space ?p" using l by simp
  have rg: "gen6_range ?p (node_start vma) s n" using assms(2) by simp
  have "ppgtt_unbind_vma gen6_ppgtt_clear_range ?p vma =
        Some (?p\<lparr>pt_pages := pt_write 1024 (pt_pages ?p) s
                 (replicate n (gen6_scratch_pte ?p))\<rparr>)"
    using sp rg assms(3) by (rule gen6_unbind_once)
  also have "\<dots> = Some ?p" by (simp add: pt_write_overwrite)
  finally show ?thesis by (simp add: gen6_unbind_once[OF assms])
qed

lemma gen8_unbind_once:
  assumes "gen8_space ppgtt" "gen8_range ppgtt (node_start vma) s n"
    "unat (obj_size vma) = n * PAGE_SIZE"
  shows "ppgtt_unbind_vma (gen8_ppgtt_clear_range h) ppgtt vma =
         Some (ppgtt\<lparr>gen8_pt_pages := pd_write (gen8_pt_pages ppgtt) s
                 (replicate n (gen8_scratch_pte h ppgtt))\<rparr>)"
  unfolding ppgtt_unbind_vma_def gen8_scratch_pte_def using assms by (rule gen8_clear_range_any)

lemma gen8_unbind_twice:
  assumes "gen8_space ppgtt" "gen8_range ppgtt (node_start vma) s n"
    "unat (obj_size vma) = n * PAGE_SIZE"
  shows "Option.bind (ppgtt_unbind_vma (gen8_ppgtt_clear_range h) ppgtt vma)
           (\<lambda>p. ppgtt_unbind_vma (gen8_ppgtt_clear_range h) p vma) =
         ppgtt_unbind_vma (gen8_ppgtt_clear_range h) ppgtt vma"
proof -
  let ?p = "ppgtt\<lparr>gen8_pt_pages := pd_write (gen8_pt_pages ppgtt) s
                 (replicate n (gen8_scratch_pte h ppgtt))\<rparr>"
  have l: "length (gen8_pt_pages ppgtt) \<le> 4" using assms(1) by (simp add: gen8_space_def)
  have sp: "gen8_space ?p" using l by simp
  have rg: "gen8_range ?p (node_start vma) s n" using assms(2) by simp
  have "ppgtt_unbind_vma (gen8_ppgtt_clear_range h) ?p vma =
        Some (?p\<lparr>gen8_pt_pages := pd_write (gen8_pt_pages ?p) s
                 (replicate n (gen8_scratch_pte h ?p))\<rparr>)"
    using sp rg assms(3) by (rule gen8_unbind_once)
  also have "\<dots> = Some ?p" by (simp add: pd_write_overwrite)
  finally show ?thesis by (simp add: gen8_unbind_once[OF assms])
qed

lemma example_ggtt_unbind:
  "ggtt_unbind_vma gen6_ggtt_clear_range gen6_ppgtt_clear_range example_ggtt_state example_vma =
   Some \<lparr> ggtt_vm = example_gtt\<lparr>gsm := [0x1005, 0x1005, 0x1005, 0x1005]\<rparr>,
          aliasing_ppgtt = Some example_ppgtt6,
          has_global_gtt_mapping = False,
          has_aliasing_ppgtt_mapping = False \<rparr>"
proof -
  have g: "gen6_ggtt_clear_range example_gtt 0 0x1000 True =
           Some (example_gtt\<lparr>gsm := [0x1005, 0x1005, 0x1005, 0x1005]\<rparr>)"
    by (simp add: gen6_ggtt_clear_range_def example_gtt_def to_unsigned_def u32_sub_def
        snb_pte_encode_def i915_hdr_def fill_ptes.simps)
  have rg: "gen6_range mapped_ppgtt6 0 0 1"
    by (simp add: gen6_range_def mapped_ppgtt6_def)
  have ln: "unat (0x1000 :: 64 word) = 1 * PAGE_SIZE" by simp
  have "gen6_ppgtt_clear_range mapped_ppgtt6 0 0x1000 True =
        Some (mapped_ppgtt6\<lparr>pt_pages := pt_write 1024 (pt_pages mapped_ppgtt6) 0
                (replicate 1 (gen6_scratch_pte mapped_ppgtt6))\<rparr>)"
    using mapped_ppgtt6_space rg ln by (rule gen6_clear_range_eq)
  moreover have "pt_write 1024 (pt_pages mapped_ppgtt6) 0 (replicate 1 0x1005) =
                 pt_pages example_ppgtt6"
  proof (rule tables_eqI[where n = 1024])
    show "wf_tables 1024 (pt_write 1024 (pt_pages mapped_ppgtt6) 0 (replicate 1 0x1005))"
      by simp
    show "wf_tables 1024 (pt_pages example_ppgtt6)"
      using example_ppgtt6_space by (simp add: gen6_space_def)
    show "length (pt_write 1024 (pt_pages mapped_ppgtt6) 0 (replicate 1 0x1005)) =
          length (pt_pages example_ppgtt6)"
      by (simp add: mapped_ppgtt6_def example_ppgtt6_def)
  next
    fix p e :: nat
    assume "p < length (pt_write 1024 (pt_pages mapped_ppgtt6) 0 (replicate 1 0x1005))"
      and e: "e < 1024"
    then have p: "p < length (pt_pages mapped_ppgtt6)" by simp
    then have p2: "p < 2" by (simp add: mapped_ppgtt6_def)
    show "pt_write 1024 (pt_pages mapped_ppgtt6) 0 (replicate 1 0x1005) ! p ! e =
          pt_pages example_ppgtt6 ! p ! e"
      using p2 e unfolding pt_write_nth[OF p e]
      by (auto simp add: mapped_ppgtt6_def example_ppgtt6_def nth_Cons' less_Suc_eq)
  qed
  ultimately have p: "gen6_ppgtt_clear_range mapped_ppgtt6 0 0x1000 True = Some example_ppgtt6"
    by (simp add: mapped_ppgtt6_scratch) (simp add: mapped_ppgtt6_def)
  show ?thesis
    by (simp add: ggtt_unbind_vma_def example_ggtt_state_def example_vma_def g p)
qed

section \<open>Claims about the page-table operations\<close>

text \<open>
  C3 as stated fails in its last clause: after \<open>insert_entries\<close> and \<open>clear_range\<close>
  the covered entry reads back as the scratch encoding \<open>0x1005\<close>, but before the
  insert it held the mapping \<open>0x3005\<close>, so the entries are not identical to the state
  before the insert.
\<close>

theorem insert_then_clear_counterexample:
  "map_option (\<lambda>p. pt_pages p ! 0 ! 0)
     (Option.bind (gen6_ppgtt_insert_entries mapped_ppgtt6 [0x2000] 0 I915_CACHE_LLC 0)
        (\<lambda>p. gen6_ppgtt_clear_range p 0 0x1000 True)) = Some 0x1005
   \<and> pt_pages mapped_ppgtt6 ! 0 ! 0 = 0x3005"
proof -
  have rg: "gen6_range mapped_ppgtt6 0 0 (length [0x2000 :: dma_addr_t])"
    by (simp add: gen6_range_def mapped_ppgtt6_def)
  have ln: "unat (0x1000 :: 64 word) = length [0x2000 :: dma_addr_t] * PAGE_SIZE" by simp
  have "Option.bind (gen6_ppgtt_insert_entries mapped_ppgtt6 [0x2000] 0 I915_CACHE_LLC 0)
        (\<lambda>p. gen6_ppgtt_clear_range p 0 0x1000 True) =
        Some (mapped_ppgtt6\<lparr>pt_pages := pt_write 1024 (pt_pages mapped_ppgtt6) 0
                (replicate (length [0x2000 :: dma_addr_t]) (gen6_scratch_pte mapped_ppgtt6))\<rparr>)"
    using mapped_ppgtt6_space rg ln by (rule gen6_insert_then_clear)
  moreover have "pt_write 1024 (pt_pages mapped_ppgtt6) 0 (replicate 1 0x1005) ! 0 ! 0 = 0x1005"
    by (simp add: pt_write_nth mapped_ppgtt6_def)
  moreover have "pt_pages mapped_ppgtt6 ! 0 ! 0 = 0x3005"
    by (simp add: mapped_ppgtt6_def)
  ultimately show ?thesis by (simp add: mapped_ppgtt6_scratch)
qed

text \<open>
  C3, amended. For a gen6 or gen8 PPGTT address space, a page list and a page-aligned
  start such that the list's range lies inside the space: \<open>insert_entries\<close> followed by
  \<open>clear_range\<close> over the same range with \<open>use_scratch = true\<close> returns, leaves every
  covered entry equal to the scratch-page encoding and every other entry as it was; and
  if the covered entries held the scratch encoding before the insert, the address space
  is identical to the state before the insert.
\<close>

theorem insert_then_clear_scratch:
  assumes "gen6_space ppgtt" "gen6_range ppgtt start s (length pages)"
    "unat len = length pages * PAGE_SIZE"
    "gen8_space ppgtt8" "gen8_range ppgtt8 start8 s8 (length pages8)"
    "unat len8 = length pages8 * PAGE_SIZE"
  shows "(\<exists>ppgtt'.
      Option.bind (gen6_ppgtt_insert_entries ppgtt pages start lvl fl)
        (\<lambda>p. gen6_ppgtt_clear_range p start len True) = Some ppgtt'
    \<and> length (pt_pages ppgtt') = length (pt_pages ppgtt)
    \<and> (\<forall>p<length (pt_pages ppgtt). \<forall>e<I915_PPGTT_PT_ENTRIES.
          pt_pages ppgtt' ! p ! e =
            (if s \<le> p * I915_PPGTT_PT_ENTRIES + e \<and>
                p * I915_PPGTT_PT_ENTRIES + e < s + length pages
             then gen6_scratch_pte ppgtt else pt_pages ppgtt ! p ! e))
    \<and> ((\<forall>p<length (pt_pages ppgtt). \<forall>e<I915_PPGTT_PT_ENTRIES.
           s \<le> p * I915_PPGTT_PT_ENTRIES + e \<and>
           p * I915_PPGTT_PT_ENTRIES + e < s + length pages \<longrightarrow>
           pt_pages ppgtt ! p ! e = gen6_scratch_pte ppgtt) \<longrightarrow> ppgtt' = ppgtt))
  \<and> (\<exists>ppgtt'.
      Option.bind (gen8_ppgtt_insert_entries h ppgtt8 pages8 start8 lvl fl)
        (\<lambda>p. gen8_ppgtt_clear_range h p start8 len8 True) = Some ppgtt'
    \<and> length (gen8_pt_pages ppgtt') = length (gen8_pt_pages ppgtt8)
    \<and> (\<forall>i<length (gen8_pt_pages ppgtt8). \<forall>j<GEN8_PDES_PER_PAGE. \<forall>e<GEN8_PTES_PER_PAGE.
          gen8_pt_pages ppgtt' ! i ! j ! e =
            (if s8 \<le> gen8_index i j e \<and> gen8_index i j e < s8 + length pages8
             then gen8_scratch_pte h ppgtt8 else gen8_pt_pages ppgtt8 ! i ! j ! e))
    \<and> ((\<forall>i<length (gen8_pt_pages ppgtt8). \<forall>j<GEN8_PDES_PER_PAGE. \<forall>e<GEN8_PTES_PER_PAGE.
           s8 \<le> gen8_index i j e \<and> gen8_index i j e < s8 + length pages8 \<longrightarrow>
           gen8_pt_pages ppgtt8 ! i ! j ! e = gen8_scratch_pte h ppgtt8) \<longrightarrow> ppgtt' = ppgtt8))"
  using gen6_round_trip[OF assms(1-3)] gen8_round_trip[OF assms(4-6)] by (rule conjI)

theorem insert_then_clear_scratch_witness:
  "gen6_space example_ppgtt6
   \<and> gen6_range example_ppgtt6 0x3FE000 1022 4
   \<and> unat (0x4000 :: 64 word) = 4 * PAGE_SIZE
   \<and> Option.bind
       (gen6_ppgtt_insert_entries example_ppgtt6 [0x2000, 0x3000, 0x4000, 0x5000] 0x3FE000
          I915_CACHE_LLC 0)
       (\<lambda>p. gen6_ppgtt_clear_range p 0x3FE000 0x4000 True) = Some example_ppgtt6
   \<and> gen8_space example_ppgtt8
   \<and> gen8_range example_ppgtt8 0x1FF000 511 2
   \<and> unat (0x2000 :: 64 word) = 2 * PAGE_SIZE
   \<and> Option.bind
       (gen8_ppgtt_insert_entries i915_hdr example_ppgtt8 [0x2000, 0x3000] 0x1FF000
          I915_CACHE_LLC 0)
       (\<lambda>p. gen8_ppgtt_clear_range i915_hdr p 0x1FF000 0x2000 True) = Some example_ppgtt8"
proof -
  have r6: "gen6_range example_ppgtt6 0x3FE000 1022
      (length [0x2000, 0x3000, 0x4000, 0x5000 :: dma_addr_t])"
    by (simp add: gen6_range_def example_ppgtt6_def)
  have l6: "unat (0x4000 :: 64 word) =
      length [0x2000, 0x3000, 0x4000, 0x5000 :: dma_addr_t] * PAGE_SIZE" by simp
  have r8: "gen8_range example_ppgtt8 0x1FF000 511 (length [0x2000, 0x3000 :: dma_addr_t])"
    by (simp add: gen8_range_def example_ppgtt8_def)
  have l8: "unat (0x2000 :: 64 word) = length [0x2000, 0x3000 :: dma_addr_t] * PAGE_SIZE"
    by simp
  note t = insert_then_clear_scratch[OF example_ppgtt6_space r6 l6 example_ppgtt8_space r8 l8,
      of I915_CACHE_LLC 0 i915_hdr]
  have e6: "\<forall>p<length (pt_pages example_ppgtt6). \<forall>e<1024.
      pt_pages example_ppgtt6 ! p ! e = gen6_scratch_pte example_ppgtt6"
    by (simp add: example_ppgtt6_scratch) (simp add: example_ppgtt6_def)
  have e8: "\<forall>i<length (gen8_pt_pages example_ppgtt8). \<forall>j<512. \<forall>e<512.
      gen8_pt_pages example_ppgtt8 ! i ! j ! e = gen8_scratch_pte i915_hdr example_ppgtt8"
    by (simp add: example_ppgtt8_scratch) (simp add: example_ppgtt8_def)
  have a: "Option.bind
       (gen6_ppgtt_insert_entries example_ppgtt6 [0x2000, 0x3000, 0x4000, 0x5000] 0x3FE000
          I915_CACHE_LLC 0)
       (\<lambda>p. gen6_ppgtt_clear_range p 0x3FE000 0x4000 True) = Some example_ppgtt6"
    using t e6 by blast
  have b: "Option.bind
       (gen8_ppgtt_insert_entries i915_hdr example_ppgtt8 [0x2000, 0x3000] 0x1FF000
          I915_CACHE_LLC 0)
       (\<lambda>p. gen8_ppgtt_clear_range i915_hdr p 0x1FF000 0x2000 True) = Some example_ppgtt8"
    using t e8 by blast
  have r6': "gen6_range example_ppgtt6 0x3FE000 1022 4"
    by (simp add: gen6_range_def example_ppgtt6_def)
  have r8': "gen8_range example_ppgtt8 0x1FF000 511 2"
    by (simp add: gen8_range_def example_ppgtt8_def)
  show ?thesis using example_ppgtt6_space example_ppgtt8_space r6' r8' a b by simp
qed



text \<open>
  C6. For a VMA whose range lies inside its PPGTT address space (gen6 or gen8),
  \<open>ppgtt_unbind_vma\<close> returns, writes the scratch encoding to the covered entries and
  keeps every other entry, and calling it twice in a row gives the same address space as
  calling it once. For \<open>ggtt_unbind_vma\<close>, whatever the \<open>clear_range\<close> functions of the
  global GTT and of the aliasing PPGTT are, calling it twice gives the same state as
  calling it once: after a first call that returns, both mapping flags are cleared and
  the second call changes nothing.
\<close>

theorem unbind_vma_idempotent:
  assumes "gen6_space ppgtt" "gen6_range ppgtt (node_start vma) s n"
    "unat (obj_size vma) = n * PAGE_SIZE"
    "gen8_space ppgtt8" "gen8_range ppgtt8 (node_start vma8) s8 n8"
    "unat (obj_size vma8) = n8 * PAGE_SIZE"
  shows "ppgtt_unbind_vma gen6_ppgtt_clear_range ppgtt vma =
           Some (ppgtt\<lparr>pt_pages := pt_write 1024 (pt_pages ppgtt) s
                   (replicate n (gen6_scratch_pte ppgtt))\<rparr>)
       \<and> Option.bind (ppgtt_unbind_vma gen6_ppgtt_clear_range ppgtt vma)
           (\<lambda>p. ppgtt_unbind_vma gen6_ppgtt_clear_range p vma) =
         ppgtt_unbind_vma gen6_ppgtt_clear_range ppgtt vma
       \<and> ppgtt_unbind_vma (gen8_ppgtt_clear_range h) ppgtt8 vma8 =
           Some (ppgtt8\<lparr>gen8_pt_pages := pd_write (gen8_pt_pages ppgtt8) s8
                   (replicate n8 (gen8_scratch_pte h ppgtt8))\<rparr>)
       \<and> Option.bind (ppgtt_unbind_vma (gen8_ppgtt_clear_range h) ppgtt8 vma8)
           (\<lambda>p. ppgtt_unbind_vma (gen8_ppgtt_clear_range h) p vma8) =
         ppgtt_unbind_vma (gen8_ppgtt_clear_range h) ppgtt8 vma8
       \<and> Option.bind (ggtt_unbind_vma ggtt_clear_range appgtt_clear_range st vmag)
           (\<lambda>st'. ggtt_unbind_vma ggtt_clear_range appgtt_clear_range st' vmag) =
         ggtt_unbind_vma ggtt_clear_range appgtt_clear_range st vmag
       \<and> (\<forall>st'. ggtt_unbind_vma ggtt_clear_range appgtt_clear_range st vmag = Some st' \<longrightarrow>
            \<not> has_global_gtt_mapping st' \<and> \<not> has_aliasing_ppgtt_mapping st' \<and>
            ggtt_unbind_vma ggtt_clear_range appgtt_clear_range st' vmag = Some st')"
proof -
  note a = gen6_unbind_once[OF assms(1-3)]
  note b = gen6_unbind_twice[OF assms(1-3)]
  note c = gen8_unbind_once[OF assms(4-6), of h]
  note d = gen8_unbind_twice[OF assms(4-6), of h]
  note e = ggtt_unbind_twice[of ggtt_clear_range appgtt_clear_range st vmag]
  have f: "\<forall>st'. ggtt_unbind_vma ggtt_clear_range appgtt_clear_range st vmag = Some st' \<longrightarrow>
            \<not> has_global_gtt_mapping st' \<and> \<not> has_aliasing_ppgtt_mapping st' \<and>
            ggtt_unbind_vma ggtt_clear_range appgtt_clear_range st' vmag = Some st'"
    using ggtt_unbind_flags ggtt_unbind_unbound by blast
  show ?thesis using a b c d e f by (intro conjI)
qed

theorem unbind_vma_idempotent_witness:
  "gen6_space mapped_ppgtt6
   \<and> gen6_range mapped_ppgtt6 (node_start example_vma) 0 1
   \<and> unat (obj_size example_vma) = 1 * PAGE_SIZE
   \<and> gen8_space example_ppgtt8
   \<and> gen8_range example_ppgtt8 (node_start example_vma) 0 1
   \<and> Option.bind (ppgtt_unbind_vma gen6_ppgtt_clear_range mapped_ppgtt6 example_vma)
        (\<lambda>p. ppgtt_unbind_vma gen6_ppgtt_clear_range p example_vma) =
      ppgtt_unbind_vma gen6_ppgtt_clear_range mapped_ppgtt6 example_vma
   \<and> ppgtt_unbind_vma gen6_ppgtt_clear_range mapped_ppgtt6 example_vma \<noteq> None
   \<and> Option.bind (ppgtt_unbind_vma (gen8_ppgtt_clear_range i915_hdr) example_ppgtt8 example_vma)
        (\<lambda>p. ppgtt_unbind_vma (gen8_ppgtt_clear_range i915_hdr) p example_vma) =
      ppgtt_unbind_vma (gen8_ppgtt_clear_range i915_hdr) example_ppgtt8 example_vma
   \<and> ppgtt_unbind_vma (gen8_ppgtt_clear_range i915_hdr) example_ppgtt8 example_vma \<noteq> None
   \<and> (\<exists>st'. ggtt_unbind_vma gen6_ggtt_clear_range gen6_ppgtt_clear_range
               example_ggtt_state example_vma = Some st'
        \<and> \<not> has_global_gtt_mapping st' \<and> \<not> has_aliasing_ppgtt_mapping st'
        \<and> ggtt_unbind_vma gen6_ggtt_clear_range gen6_ppgtt_clear_range st' example_vma = Some st')"
proof -
  have r6: "gen6_range mapped_ppgtt6 (node_start example_vma) 0 1"
    by (simp add: gen6_range_def mapped_ppgtt6_def example_vma_def)
  have l6: "unat (obj_size example_vma) = 1 * PAGE_SIZE" by (simp add: example_vma_def)
  have r8: "gen8_range example_ppgtt8 (node_start example_vma) 0 1"
    by (simp add: gen8_range_def example_ppgtt8_def example_vma_def)
  note t = unbind_vma_idempotent[OF mapped_ppgtt6_space r6 l6 example_ppgtt8_space r8 l6,
      of i915_hdr gen6_ggtt_clear_range gen6_ppgtt_clear_range example_ggtt_state example_vma]
  note t1 = t[THEN conjunct1]
  note t2 = t[THEN conjunct2, THEN conjunct1]
  note t3 = t[THEN conjunct2, THEN conjunct2, THEN conjunct1]
  note t4 = t[THEN conjunct2, THEN conjunct2, THEN conjunct2, THEN conjunct1]
  note t6 = t[THEN conjunct2, THEN conjunct2, THEN conjunct2, THEN conjunct2, THEN conjunct2,
      THEN spec, THEN mp, OF example_ggtt_unbind]
  have n6: "ppgtt_unbind_vma gen6_ppgtt_clear_range mapped_ppgtt6 example_vma \<noteq> None"
    using t1 by simp
  have n8: "ppgtt_unbind_vma (gen8_ppgtt_clear_range i915_hdr) example_ppgtt8 example_vma \<noteq> None"
    using t3 by simp
  have g: "\<exists>st'. ggtt_unbind_vma gen6_ggtt_clear_range gen6_ppgtt_clear_range
               example_ggtt_state example_vma = Some st'
        \<and> \<not> has_global_gtt_mapping st' \<and> \<not> has_aliasing_ppgtt_mapping st'
        \<and> ggtt_unbind_vma gen6_ggtt_clear_range gen6_ppgtt_clear_range st' example_vma = Some st'"
    using example_ggtt_unbind t6 by blast
  show ?thesis
    using mapped_ppgtt6_space r6 l6 example_ppgtt8_space r8 t2 n6 t4 n8 g by (intro conjI)
qed

section \<open>Properties of the initialisation\<close>

subsection \<open>The gen6 allocator\<close>

declare gen6_alloc_pt_loop.simps [simp del] gen6_setup_loop.simps [simp del]

lemma pci_unmap_page_hw [simp]: "hw (pci_unmap_page a w) = hw w"
  by (simp add: pci_unmap_page_def)

lemma fold_pci_unmap_page_hw [simp]: "hw (fold pci_unmap_page xs w) = hw w"
  by (induction xs arbitrary: w) simp_all

lemma unmap_indices:
  "fold (\<lambda>i w. pci_unmap_page (pt_dma_addr (hw w) ! i) w) is w =
   fold pci_unmap_page (map (\<lambda>i. pt_dma_addr (hw w) ! i) is) w"
  by (induction "is" arbitrary: w) simp_all

lemma unmap_mapped:
  "dma_mapped w = xs @ ys \<Longrightarrow> fold pci_unmap_page xs w = w\<lparr>dma_mapped := ys\<rparr>"
proof (induction xs arbitrary: w)
  case Nil
  then show ?case by simp
next
  case (Cons x xs)
  have "pci_unmap_page x w = w\<lparr>dma_mapped := xs @ ys\<rparr>"
    using Cons.prems by (simp add: pci_unmap_page_def)
  moreover have "fold pci_unmap_page xs (w\<lparr>dma_mapped := xs @ ys\<rparr>) =
                 (w\<lparr>dma_mapped := xs @ ys\<rparr>)\<lparr>dma_mapped := ys\<rparr>"
    by (rule Cons.IH) simp
  ultimately show ?case by simp
qed

lemma unmap_stray:
  "dma_mapped w = [] \<Longrightarrow>
   fold pci_unmap_page zs w = w\<lparr>stray_unmaps := stray_unmaps w + length zs\<rparr>"
proof (induction zs arbitrary: w)
  case Nil
  then show ?case by simp
next
  case (Cons z zs)
  have "pci_unmap_page z w = w\<lparr>stray_unmaps := stray_unmaps w + 1\<rparr>"
    using Cons.prems by (simp add: pci_unmap_page_def)
  moreover have "fold pci_unmap_page zs (w\<lparr>stray_unmaps := stray_unmaps w + 1\<rparr>) =
     (w\<lparr>stray_unmaps := stray_unmaps w + 1\<rparr>)\<lparr>stray_unmaps :=
        stray_unmaps (w\<lparr>stray_unmaps := stray_unmaps w + 1\<rparr>) + length zs\<rparr>"
    by (rule Cons.IH) (simp add: Cons.prems)
  ultimately show ?case by simp
qed

lemma gen6_unmap_pages_eq:
  assumes "pt_dma_addr_live w" "pt_dma_addr (hw w) = xs @ zs"
    "length (xs @ zs) = num_pd_entries (hw w)" "dma_mapped w = xs"
  shows "gen6_ppgtt_unmap_pages w =
         w\<lparr>dma_mapped := [], stray_unmaps := stray_unmaps w + length zs\<rparr>"
proof -
  have "map (\<lambda>i. pt_dma_addr (hw w) ! i) [0..<num_pd_entries (hw w)] = xs @ zs"
    using assms(2,3) by (metis map_nth)
  then have "gen6_ppgtt_unmap_pages w = fold pci_unmap_page (xs @ zs) w"
    using assms(1) by (simp add: gen6_ppgtt_unmap_pages_def unmap_indices)
  also have "\<dots> = fold pci_unmap_page zs (fold pci_unmap_page xs w)" by simp
  also have "fold pci_unmap_page xs w = w\<lparr>dma_mapped := []\<rparr>"
    by (rule unmap_mapped) (simp add: assms(4))
  also have "fold pci_unmap_page zs (w\<lparr>dma_mapped := []\<rparr>) =
             (w\<lparr>dma_mapped := []\<rparr>)\<lparr>stray_unmaps := stray_unmaps (w\<lparr>dma_mapped := []\<rparr>) + length zs\<rparr>"
    by (rule unmap_stray) simp
  finally show ?thesis by simp
qed

lemma free_pages_held:
  "n \<le> length (pt_pages (hw w)) \<Longrightarrow>
   fold free_page [0..<n] w = w\<lparr>pages_held := pages_held w - n\<rparr>"
proof (induction n)
  case 0
  then show ?case by simp
next
  case (Suc n)
  then show ?case by (simp add: free_page_def)
qed

lemma gen6_ppgtt_free_eq:
  "num_pd_entries (hw w) \<le> length (pt_pages (hw w)) \<Longrightarrow>
   gen6_ppgtt_free w =
   w\<lparr>pt_dma_addr_live := False, pages_held := pages_held w - num_pd_entries (hw w),
     pt_pages_live := False\<rparr>"
  by (simp add: gen6_ppgtt_free_def Let_def free_pages_held)

lemma gen6_alloc_pt_loop_ok:
  assumes "\<forall>j. i \<le> j \<and> j < num_pd_entries (hw w) \<longrightarrow> alloc_page env j \<noteq> None"
  shows "gen6_alloc_pt_loop env w i =
         (None, w\<lparr>hw := (hw w)\<lparr>pt_pages := pt_pages (hw w) @
                     map (\<lambda>j. map (the (alloc_page env j)) [0..<I915_PPGTT_PT_ENTRIES])
                       [i..<num_pd_entries (hw w)]\<rparr>,
                  pages_held := pages_held w + (num_pd_entries (hw w) - i)\<rparr>)"
  using assms
proof (induction k \<equiv> "num_pd_entries (hw w) - i" arbitrary: w i)
  case 0
  then show ?case by (subst gen6_alloc_pt_loop.simps) simp
next
  case (Suc k)
  then have lt: "i < num_pd_entries (hw w)" by simp
  then obtain f where f: "alloc_page env i = Some f" using Suc.prems by fastforce
  let ?w = "store_pt_page f w"
  have n: "num_pd_entries (hw ?w) = num_pd_entries (hw w)" by (simp add: store_pt_page_def)
  have k: "k = num_pd_entries (hw ?w) - (i + 1)" using Suc.hyps(2) n by simp
  have a: "\<forall>j. i + 1 \<le> j \<and> j < num_pd_entries (hw ?w) \<longrightarrow> alloc_page env j \<noteq> None"
    using Suc.prems n by simp
  have "gen6_alloc_pt_loop env w i = gen6_alloc_pt_loop env ?w (i + 1)"
    using lt f by (subst gen6_alloc_pt_loop.simps) simp
  also note Suc.hyps(1)[OF k a]
  finally show ?case using f lt by (simp add: store_pt_page_def upt_conv_Cons[OF lt])
qed

lemma gen6_alloc_pt_loop_success:
  assumes "fst (gen6_alloc_pt_loop env w i) = None"
  shows "\<forall>j. i \<le> j \<and> j < num_pd_entries (hw w) \<longrightarrow> alloc_page env j \<noteq> None"
  using assms
proof (induction k \<equiv> "num_pd_entries (hw w) - i" arbitrary: w i)
  case 0
  then show ?case by auto
next
  case (Suc k)
  then have lt: "i < num_pd_entries (hw w)" by simp
  have "alloc_page env i \<noteq> None"
  proof
    assume "alloc_page env i = None"
    then have "fst (gen6_alloc_pt_loop env w i) = Some ENOMEM"
      using lt by (subst gen6_alloc_pt_loop.simps) simp
    then show False using Suc.prems by simp
  qed
  then obtain f where f: "alloc_page env i = Some f" by blast
  let ?w = "store_pt_page f w"
  have n: "num_pd_entries (hw ?w) = num_pd_entries (hw w)" by (simp add: store_pt_page_def)
  have k: "k = num_pd_entries (hw ?w) - (i + 1)" using Suc.hyps(2) n by simp
  have "gen6_alloc_pt_loop env w i = gen6_alloc_pt_loop env ?w (i + 1)"
    using lt f by (subst gen6_alloc_pt_loop.simps) simp
  then have "fst (gen6_alloc_pt_loop env ?w (i + 1)) = None" using Suc.prems by simp
  from Suc.hyps(1)[OF k this] have
    "\<forall>j. i + 1 \<le> j \<and> j < num_pd_entries (hw w) \<longrightarrow> alloc_page env j \<noteq> None"
    using n by simp
  then show ?case using f by (metis Suc_eq_plus1 Suc_leI le_neq_implies_less option.distinct(1))
qed

lemma gen6_setup_loop_run:
  assumes "\<forall>j. i \<le> j \<and> j < k \<longrightarrow> pci_map_page env j \<noteq> None" "i \<le> k"
    "k \<le> num_pd_entries (hw w)"
  shows "gen6_setup_loop env w i =
         gen6_setup_loop env
           (w\<lparr>hw := (hw w)\<lparr>pt_dma_addr :=
                  fold (\<lambda>j l. l[j := the (pci_map_page env j)]) [i..<k] (pt_dma_addr (hw w))\<rparr>,
              dma_mapped := dma_mapped w @ map (\<lambda>j. the (pci_map_page env j)) [i..<k]\<rparr>) k"
  using assms
proof (induction d \<equiv> "k - i" arbitrary: w i)
  case 0
  then have "i = k" by simp
  then show ?case by simp
next
  case (Suc d)
  then have lt: "i < k" by simp
  then have ltn: "i < num_pd_entries (hw w)" using Suc.prems by simp
  obtain a where a: "pci_map_page env i = Some a" using Suc.prems lt by fastforce
  let ?w = "store_pt_dma_addr i a w"
  have n: "num_pd_entries (hw ?w) = num_pd_entries (hw w)" by (simp add: store_pt_dma_addr_def)
  have d: "d = k - (i + 1)" using Suc.hyps(2) by simp
  have p: "\<forall>j. i + 1 \<le> j \<and> j < k \<longrightarrow> pci_map_page env j \<noteq> None" using Suc.prems by simp
  have le: "i + 1 \<le> k" using lt by simp
  have kn: "k \<le> num_pd_entries (hw ?w)" using Suc.prems n by simp
  have "gen6_setup_loop env w i = gen6_setup_loop env ?w (i + 1)"
    using ltn a by (subst gen6_setup_loop.simps) simp
  also note Suc.hyps(1)[OF d p le kn]
  finally show ?case using a by (simp add: store_pt_dma_addr_def upt_conv_Cons[OF lt])
qed

lemma gen6_setup_loop_success:
  assumes "fst (gen6_setup_loop env w i) = None"
  shows "\<forall>j. i \<le> j \<and> j < num_pd_entries (hw w) \<longrightarrow> pci_map_page env j \<noteq> None"
  using assms
proof (induction k \<equiv> "num_pd_entries (hw w) - i" arbitrary: w i)
  case 0
  then show ?case by auto
next
  case (Suc k)
  then have lt: "i < num_pd_entries (hw w)" by simp
  have "pci_map_page env i \<noteq> None"
  proof
    assume "pci_map_page env i = None"
    then have "fst (gen6_setup_loop env w i) = Some EIO"
      using lt by (subst gen6_setup_loop.simps) simp
    then show False using Suc.prems by simp
  qed
  then obtain a where a: "pci_map_page env i = Some a" by blast
  let ?w = "store_pt_dma_addr i a w"
  have n: "num_pd_entries (hw ?w) = num_pd_entries (hw w)" by (simp add: store_pt_dma_addr_def)
  have k: "k = num_pd_entries (hw ?w) - (i + 1)" using Suc.hyps(2) n by simp
  have "gen6_setup_loop env w i = gen6_setup_loop env ?w (i + 1)"
    using lt a by (subst gen6_setup_loop.simps) simp
  then have "fst (gen6_setup_loop env ?w (i + 1)) = None" using Suc.prems by simp
  from Suc.hyps(1)[OF k this] have
    "\<forall>j. i + 1 \<le> j \<and> j < num_pd_entries (hw w) \<longrightarrow> pci_map_page env j \<noteq> None"
    using n by simp
  then show ?case using a by (metis Suc_eq_plus1 Suc_leI le_neq_implies_less option.distinct(1))
qed

lemma fold_update_replicate:
  "k \<le> n \<Longrightarrow>
   fold (\<lambda>j l. l[j := g j]) [0..<k] (replicate n z) = map g [0..<k] @ replicate (n - k) z"
proof (induction k)
  case 0
  then show ?case by simp
next
  case (Suc k)
  then have "n - k = Suc (n - Suc k)" by simp
  then show ?case using Suc by (simp add: list_update_append)
qed

lemma gen6_alloc_pt_loop_result:
  assumes "fst (gen6_alloc_pt_loop env w i) = None"
  shows "snd (gen6_alloc_pt_loop env w i) =
         w\<lparr>hw := (hw w)\<lparr>pt_pages := pt_pages (hw w) @
                     map (\<lambda>j. map (the (alloc_page env j)) [0..<I915_PPGTT_PT_ENTRIES])
                       [i..<num_pd_entries (hw w)]\<rparr>,
           pages_held := pages_held w + (num_pd_entries (hw w) - i)\<rparr>"
  using gen6_alloc_pt_loop_ok[OF gen6_alloc_pt_loop_success[OF assms]] by simp

lemma gen6_setup_loop_end:
  "num_pd_entries (hw w) \<le> i \<Longrightarrow> gen6_setup_loop env w i = (None, w)"
  by (subst gen6_setup_loop.simps) simp

lemma gen6_setup_loop_fail:
  "i < num_pd_entries (hw w) \<Longrightarrow> pci_map_page env i = None \<Longrightarrow>
   gen6_setup_loop env w i = (Some EIO, gen6_ppgtt_unmap_pages w)"
  by (subst gen6_setup_loop.simps) simp

lemma gen6_setup_result:
  assumes "fst (gen6_ppgtt_setup_page_tables env w) = None"
  shows "snd (gen6_ppgtt_setup_page_tables env w) =
         w\<lparr>hw := (hw w)\<lparr>pt_dma_addr :=
                fold (\<lambda>j l. l[j := the (pci_map_page env j)]) [0..<num_pd_entries (hw w)]
                  (pt_dma_addr (hw w))\<rparr>,
           dma_mapped := dma_mapped w @
             map (\<lambda>j. the (pci_map_page env j)) [0..<num_pd_entries (hw w)]\<rparr>"
proof -
  have a: "\<forall>j. 0 \<le> j \<and> j < num_pd_entries (hw w) \<longrightarrow> pci_map_page env j \<noteq> None"
    using gen6_setup_loop_success[of env w 0] assms
    by (simp add: gen6_ppgtt_setup_page_tables_def)
  show ?thesis
    unfolding gen6_ppgtt_setup_page_tables_def
    by (subst gen6_setup_loop_run[OF a]) (simp_all add: gen6_setup_loop_end)
qed

lemma gen6_setup_ok:
  assumes "\<forall>j<num_pd_entries (hw w). pci_map_page env j \<noteq> None"
  shows "fst (gen6_ppgtt_setup_page_tables env w) = None"
proof -
  have a: "\<forall>j. 0 \<le> j \<and> j < num_pd_entries (hw w) \<longrightarrow> pci_map_page env j \<noteq> None"
    using assms by simp
  show ?thesis
    unfolding gen6_ppgtt_setup_page_tables_def
    by (subst gen6_setup_loop_run[OF a]) (simp_all add: gen6_setup_loop_end)
qed

lemma gen6_allocate_page_directories_result:
  assumes "fst (gen6_ppgtt_allocate_page_directories env w) = None"
  shows "\<exists>start. snd (gen6_ppgtt_allocate_page_directories env w) =
           set_num_pd_entries GEN6_PPGTT_PD_ENTRIES (w\<lparr>node := Some start\<rparr>)"
  using assms
  by (auto simp add: gen6_ppgtt_allocate_page_directories_def
      split: if_splits sum.splits option.splits)

lemma gen6_allocate_page_tables_result:
  assumes "fst (gen6_ppgtt_allocate_page_tables env w) = None"
  shows "snd (gen6_ppgtt_allocate_page_tables env w) =
         w\<lparr>hw := (hw w)\<lparr>pt_pages :=
                     map (\<lambda>j. map (the (alloc_page env j)) [0..<I915_PPGTT_PT_ENTRIES])
                       [0..<num_pd_entries (hw w)]\<rparr>,
           pt_pages_live := True,
           pages_held := pages_held w + num_pd_entries (hw w)\<rparr>"
proof -
  let ?w = "w\<lparr>hw := (hw w)\<lparr>pt_pages := []\<rparr>, pt_pages_live := True\<rparr>"
  have k: "kcalloc_pt_pages env"
    using assms by (auto simp add: gen6_ppgtt_allocate_page_tables_def split: if_splits)
  then have e: "gen6_ppgtt_allocate_page_tables env w = gen6_alloc_pt_loop env ?w 0"
    by (simp add: gen6_ppgtt_allocate_page_tables_def)
  then have "fst (gen6_alloc_pt_loop env ?w 0) = None" using assms by simp
  from gen6_alloc_pt_loop_result[OF this] show ?thesis unfolding e by simp
qed

lemma gen6_alloc_result:
  assumes "fst (gen6_ppgtt_alloc env w) = None"
  shows "hw (snd (gen6_ppgtt_alloc env w)) =
           (hw w)\<lparr>num_pd_entries := GEN6_PPGTT_PD_ENTRIES,
                  pt_pages :=
                    map (\<lambda>j. map (the (alloc_page env j)) [0..<I915_PPGTT_PT_ENTRIES])
                      [0..<GEN6_PPGTT_PD_ENTRIES],
                  pt_dma_addr := replicate GEN6_PPGTT_PD_ENTRIES 0\<rparr>"
    and "node (snd (gen6_ppgtt_alloc env w)) \<noteq> None"
    and "pt_pages_live (snd (gen6_ppgtt_alloc env w))"
    and "pt_dma_addr_live (snd (gen6_ppgtt_alloc env w))"
    and "pages_held (snd (gen6_ppgtt_alloc env w)) = pages_held w + GEN6_PPGTT_PD_ENTRIES"
    and "dma_mapped (snd (gen6_ppgtt_alloc env w)) = dma_mapped w"
    and "stray_unmaps (snd (gen6_ppgtt_alloc env w)) = stray_unmaps w"
    and "stray_frees (snd (gen6_ppgtt_alloc env w)) = stray_frees w"
proof -
  obtain r1 w1 where a1: "gen6_ppgtt_allocate_page_directories env w = (r1, w1)"
    by (cases "gen6_ppgtt_allocate_page_directories env w")
  have r1: "r1 = None" using assms a1 by (auto simp add: gen6_ppgtt_alloc_def split: option.splits)
  obtain start where w1: "w1 = set_num_pd_entries GEN6_PPGTT_PD_ENTRIES (w\<lparr>node := Some start\<rparr>)"
    using gen6_allocate_page_directories_result[of env w] a1 r1 by auto
  obtain r2 w2 where a2: "gen6_ppgtt_allocate_page_tables env w1 = (r2, w2)"
    by (cases "gen6_ppgtt_allocate_page_tables env w1")
  have r2: "r2 = None"
    using assms a1 r1 a2 by (auto simp add: gen6_ppgtt_alloc_def split: option.splits)
  have w2: "w2 = w1\<lparr>hw := (hw w1)\<lparr>pt_pages :=
                     map (\<lambda>j. map (the (alloc_page env j)) [0..<I915_PPGTT_PT_ENTRIES])
                       [0..<num_pd_entries (hw w1)]\<rparr>,
           pt_pages_live := True,
           pages_held := pages_held w1 + num_pd_entries (hw w1)\<rparr>"
    using gen6_allocate_page_tables_result[of env w1] a2 r2 by simp
  have k: "kcalloc_pt_dma_addr env"
    using assms a1 r1 a2 r2 by (auto simp add: gen6_ppgtt_alloc_def split: if_splits)
  have e: "snd (gen6_ppgtt_alloc env w) =
        w2\<lparr>hw := (hw w2)\<lparr>pt_dma_addr := replicate (num_pd_entries (hw w2)) 0\<rparr>,
          pt_dma_addr_live := True\<rparr>"
    using a1 r1 a2 r2 k by (simp add: gen6_ppgtt_alloc_def)
  show "hw (snd (gen6_ppgtt_alloc env w)) =
           (hw w)\<lparr>num_pd_entries := GEN6_PPGTT_PD_ENTRIES,
                  pt_pages :=
                    map (\<lambda>j. map (the (alloc_page env j)) [0..<I915_PPGTT_PT_ENTRIES])
                      [0..<GEN6_PPGTT_PD_ENTRIES],
                  pt_dma_addr := replicate GEN6_PPGTT_PD_ENTRIES 0\<rparr>"
    unfolding e w2 w1 by (simp add: set_num_pd_entries_def)
  show "node (snd (gen6_ppgtt_alloc env w)) \<noteq> None"
    unfolding e w2 w1 by (simp add: set_num_pd_entries_def)
  show "pt_pages_live (snd (gen6_ppgtt_alloc env w))"
    unfolding e w2 w1 by (simp add: set_num_pd_entries_def)
  show "pt_dma_addr_live (snd (gen6_ppgtt_alloc env w))"
    unfolding e w2 w1 by (simp add: set_num_pd_entries_def)
  show "pages_held (snd (gen6_ppgtt_alloc env w)) = pages_held w + GEN6_PPGTT_PD_ENTRIES"
    unfolding e w2 w1 by (simp add: set_num_pd_entries_def)
  show "dma_mapped (snd (gen6_ppgtt_alloc env w)) = dma_mapped w"
    unfolding e w2 w1 by (simp add: set_num_pd_entries_def)
  show "stray_unmaps (snd (gen6_ppgtt_alloc env w)) = stray_unmaps w"
    unfolding e w2 w1 by (simp add: set_num_pd_entries_def)
  show "stray_frees (snd (gen6_ppgtt_alloc env w)) = stray_frees w"
    unfolding e w2 w1 by (simp add: set_num_pd_entries_def)
qed

lemma gen6_alloc_ok:
  assumes "drm_mm_initialized env" "drm_mm_insert_node env 0 = Inr start"
    "kcalloc_pt_pages env" "\<forall>j<GEN6_PPGTT_PD_ENTRIES. alloc_page env j \<noteq> None"
    "kcalloc_pt_dma_addr env"
  shows "fst (gen6_ppgtt_alloc env w) = None \<and> node (snd (gen6_ppgtt_alloc env w)) = Some start"
proof -
  let ?w1 = "set_num_pd_entries GEN6_PPGTT_PD_ENTRIES (w\<lparr>node := Some start\<rparr>)"
  let ?w0 = "?w1\<lparr>hw := (hw ?w1)\<lparr>pt_pages := []\<rparr>, pt_pages_live := True\<rparr>"
  have a1: "gen6_ppgtt_allocate_page_directories env w = (None, ?w1)"
    using assms(1,2) by (simp add: gen6_ppgtt_allocate_page_directories_def)
  have n: "num_pd_entries (hw ?w0) = GEN6_PPGTT_PD_ENTRIES" by (simp add: set_num_pd_entries_def)
  have "\<forall>j. 0 \<le> j \<and> j < num_pd_entries (hw ?w0) \<longrightarrow> alloc_page env j \<noteq> None"
    using assms(4) unfolding n by simp
  from gen6_alloc_pt_loop_ok[OF this]
  obtain w2 where l: "gen6_alloc_pt_loop env ?w0 0 = (None, w2)" and nd: "node w2 = Some start"
    by (simp add: set_num_pd_entries_def)
  have a2: "gen6_ppgtt_allocate_page_tables env ?w1 = (None, w2)"
    using assms(3) l by (simp add: gen6_ppgtt_allocate_page_tables_def)
  show ?thesis using a1 a2 assms(5) nd by (simp add: gen6_ppgtt_alloc_def)
qed

lemma pt_write_all:
  assumes "length pts = m"
  shows "pt_write n pts 0 (replicate (m * n) v) = replicate m (replicate n v)"
proof (rule tables_eqI[where n = n])
  show "wf_tables n (pt_write n pts 0 (replicate (m * n) v))" by simp
  show "wf_tables n (replicate m (replicate n v))" by simp
  show "length (pt_write n pts 0 (replicate (m * n) v)) = length (replicate m (replicate n v))"
    using assms by simp
next
  fix p e :: nat
  assume "p < length (pt_write n pts 0 (replicate (m * n) v))" and e: "e < n"
  then have p: "p < m" using assms by simp
  then have "Suc p * n \<le> m * n" by (intro mult_le_mono1) simp
  then have lt: "p * n + e < m * n" using e by simp
  have pl: "p < length pts" using p assms by simp
  show "pt_write n pts 0 (replicate (m * n) v) ! p ! e = replicate m (replicate n v) ! p ! e"
    unfolding pt_write_nth[OF pl e] using lt p e by simp
qed

lemma gen6_init_cases:
  assumes "fst (gen6_ppgtt_init h env w) = None"
  obtains sw w1 w2 p where
    "gen6_select_switch_mm env = Some sw"
    "gen6_ppgtt_alloc env
       (w\<lparr>hw := (hw w)\<lparr>pte_encode := gtt_base_pte_encode env, switch_mm := Some sw\<rparr>\<rparr>) = (None, w1)"
    "gen6_ppgtt_setup_page_tables env w1 = (None, w2)"
    "gen6_ppgtt_clear_range
       ((hw w2)\<lparr>total := of_nat (num_pd_entries (hw w2) * I915_PPGTT_PT_ENTRIES * PAGE_SIZE),
                pd_offset := (case node w2 of None \<Rightarrow> 0 | Some start \<Rightarrow> ucast (start div 4096 * 4))\<rparr>)
       0 (of_nat (num_pd_entries (hw w2) * I915_PPGTT_PT_ENTRIES * PAGE_SIZE)) True = Some p"
    "gen6_ppgtt_init h env w = (None, w2\<lparr>hw := gen6_write_pdes h p\<rparr>)"
  using assms
  by (auto simp add: gen6_ppgtt_init_def Let_def split: option.splits prod.splits)

lemma gen6_init_scratch:
  assumes "fst (gen6_ppgtt_init h env w) = None"
  shows "pt_pages (hw (snd (gen6_ppgtt_init h env w))) =
         replicate GEN6_PPGTT_PD_ENTRIES (replicate I915_PPGTT_PT_ENTRIES
           (gen6_scratch_pte (hw (snd (gen6_ppgtt_init h env w)))))"
    and "unat (total (hw (snd (gen6_ppgtt_init h env w)))) =
         GEN6_PPGTT_PD_ENTRIES * I915_PPGTT_PT_ENTRIES * PAGE_SIZE"
    and "pte_encode (hw (snd (gen6_ppgtt_init h env w))) = gtt_base_pte_encode env"
    and "scratch_addr (hw (snd (gen6_ppgtt_init h env w))) = scratch_addr (hw w)"
proof -
  from assms obtain sw w1 w2 p where
    al: "gen6_ppgtt_alloc env
       (w\<lparr>hw := (hw w)\<lparr>pte_encode := gtt_base_pte_encode env, switch_mm := Some sw\<rparr>\<rparr>) = (None, w1)"
    and st: "gen6_ppgtt_setup_page_tables env w1 = (None, w2)"
    and cl: "gen6_ppgtt_clear_range
       ((hw w2)\<lparr>total := of_nat (num_pd_entries (hw w2) * I915_PPGTT_PT_ENTRIES * PAGE_SIZE),
                pd_offset := (case node w2 of None \<Rightarrow> 0 | Some start \<Rightarrow> ucast (start div 4096 * 4))\<rparr>)
       0 (of_nat (num_pd_entries (hw w2) * I915_PPGTT_PT_ENTRIES * PAGE_SIZE)) True = Some p"
    and r: "gen6_ppgtt_init h env w = (None, w2\<lparr>hw := gen6_write_pdes h p\<rparr>)"
    by (rule gen6_init_cases)
  let ?wa = "w\<lparr>hw := (hw w)\<lparr>pte_encode := gtt_base_pte_encode env, switch_mm := Some sw\<rparr>\<rparr>"
  let ?P = "map (\<lambda>j. map (the (alloc_page env j)) [0..<I915_PPGTT_PT_ENTRIES])
              [0..<GEN6_PPGTT_PD_ENTRIES]"
  have "fst (gen6_ppgtt_alloc env ?wa) = None" using al by simp
  from gen6_alloc_result(1)[OF this] have h1: "hw w1 =
      (hw ?wa)\<lparr>num_pd_entries := GEN6_PPGTT_PD_ENTRIES, pt_pages := ?P,
                pt_dma_addr := replicate GEN6_PPGTT_PD_ENTRIES 0\<rparr>"
    using al by simp
  have "fst (gen6_ppgtt_setup_page_tables env w1) = None" using st by simp
  from gen6_setup_result[OF this] have w2: "w2 =
      w1\<lparr>hw := (hw w1)\<lparr>pt_dma_addr :=
                fold (\<lambda>j l. l[j := the (pci_map_page env j)]) [0..<num_pd_entries (hw w1)]
                  (pt_dma_addr (hw w1))\<rparr>,
           dma_mapped := dma_mapped w1 @
             map (\<lambda>j. the (pci_map_page env j)) [0..<num_pd_entries (hw w1)]\<rparr>"
    using st by simp
  have n2: "num_pd_entries (hw w2) = GEN6_PPGTT_PD_ENTRIES" unfolding w2 h1 by simp
  have p2: "pt_pages (hw w2) = ?P" unfolding w2 h1 by simp
  let ?g = "(hw w2)\<lparr>total := 0x80000000,
                pd_offset := (case node w2 of None \<Rightarrow> 0 | Some start \<Rightarrow> ucast (start div 4096 * 4))\<rparr>"
  have cl': "gen6_ppgtt_clear_range ?g 0 0x80000000 True = Some p"
    using cl unfolding n2 by simp
  have sp: "gen6_space ?g" by (simp add: gen6_space_def p2 wf_tables_def list_all_iff)
  have rg: "gen6_range ?g 0 0 (GEN6_PPGTT_PD_ENTRIES * I915_PPGTT_PT_ENTRIES)"
    by (simp add: gen6_range_def p2)
  have ln: "unat (0x80000000 :: 64 word) = GEN6_PPGTT_PD_ENTRIES * I915_PPGTT_PT_ENTRIES * PAGE_SIZE"
    by simp
  have lP: "length (pt_pages ?g) = GEN6_PPGTT_PD_ENTRIES" by (simp add: p2)
  have "gen6_ppgtt_clear_range ?g 0 0x80000000 True =
        Some (?g\<lparr>pt_pages := pt_write 1024 (pt_pages ?g) 0
                (replicate (GEN6_PPGTT_PD_ENTRIES * I915_PPGTT_PT_ENTRIES) (gen6_scratch_pte ?g))\<rparr>)"
    using sp rg ln by (rule gen6_clear_range_eq)
  then have p: "p = ?g\<lparr>pt_pages :=
      replicate GEN6_PPGTT_PD_ENTRIES (replicate I915_PPGTT_PT_ENTRIES (gen6_scratch_pte ?g))\<rparr>"
    using cl' unfolding pt_write_all[OF lP] by simp
  show "pt_pages (hw (snd (gen6_ppgtt_init h env w))) =
         replicate GEN6_PPGTT_PD_ENTRIES (replicate I915_PPGTT_PT_ENTRIES
           (gen6_scratch_pte (hw (snd (gen6_ppgtt_init h env w)))))"
    unfolding r p by (simp add: gen6_write_pdes_def gen6_scratch_pte_def)
  show "unat (total (hw (snd (gen6_ppgtt_init h env w)))) =
         GEN6_PPGTT_PD_ENTRIES * I915_PPGTT_PT_ENTRIES * PAGE_SIZE"
    unfolding r p by (simp add: gen6_write_pdes_def)
  show "pte_encode (hw (snd (gen6_ppgtt_init h env w))) = gtt_base_pte_encode env"
    unfolding r p by (simp add: gen6_write_pdes_def w2 h1)
  show "scratch_addr (hw (snd (gen6_ppgtt_init h env w))) = scratch_addr (hw w)"
    unfolding r p by (simp add: gen6_write_pdes_def w2 h1)
qed

lemma gen6_init_ok:
  assumes "gen6_select_switch_mm env \<noteq> None" "drm_mm_initialized env"
    "drm_mm_insert_node env 0 = Inr start"
    "kcalloc_pt_pages env" "\<forall>j<GEN6_PPGTT_PD_ENTRIES. alloc_page env j \<noteq> None"
    "kcalloc_pt_dma_addr env" "\<forall>j<GEN6_PPGTT_PD_ENTRIES. pci_map_page env j \<noteq> None"
  shows "fst (gen6_ppgtt_init h env w) = None"
proof -
  obtain sw where sw: "gen6_select_switch_mm env = Some sw" using assms(1) by blast
  let ?wa = "w\<lparr>hw := (hw w)\<lparr>pte_encode := gtt_base_pte_encode env, switch_mm := Some sw\<rparr>\<rparr>"
  let ?P = "map (\<lambda>j. map (the (alloc_page env j)) [0..<I915_PPGTT_PT_ENTRIES])
              [0..<GEN6_PPGTT_PD_ENTRIES]"
  obtain w1 where al: "gen6_ppgtt_alloc env ?wa = (None, w1)"
    using gen6_alloc_ok[OF assms(2-6), of ?wa] by (cases "gen6_ppgtt_alloc env ?wa") simp
  then have f1: "fst (gen6_ppgtt_alloc env ?wa) = None" by simp
  have h1: "hw w1 =
      (hw ?wa)\<lparr>num_pd_entries := GEN6_PPGTT_PD_ENTRIES, pt_pages := ?P,
                pt_dma_addr := replicate GEN6_PPGTT_PD_ENTRIES 0\<rparr>"
    using gen6_alloc_result(1)[OF f1] al by simp
  have n1: "num_pd_entries (hw w1) = GEN6_PPGTT_PD_ENTRIES" unfolding h1 by simp
  have "fst (gen6_ppgtt_setup_page_tables env w1) = None"
    by (rule gen6_setup_ok) (simp add: n1 assms(7))
  then obtain w2 where st: "gen6_ppgtt_setup_page_tables env w1 = (None, w2)"
    by (cases "gen6_ppgtt_setup_page_tables env w1") simp
  then have "fst (gen6_ppgtt_setup_page_tables env w1) = None" by simp
  from gen6_setup_result[OF this] have w2: "w2 =
      w1\<lparr>hw := (hw w1)\<lparr>pt_dma_addr :=
                fold (\<lambda>j l. l[j := the (pci_map_page env j)]) [0..<num_pd_entries (hw w1)]
                  (pt_dma_addr (hw w1))\<rparr>,
           dma_mapped := dma_mapped w1 @
             map (\<lambda>j. the (pci_map_page env j)) [0..<num_pd_entries (hw w1)]\<rparr>"
    using st by simp
  have n2: "num_pd_entries (hw w2) = GEN6_PPGTT_PD_ENTRIES" unfolding w2 h1 by simp
  have p2: "pt_pages (hw w2) = ?P" unfolding w2 h1 by simp
  let ?g = "(hw w2)\<lparr>total := 0x80000000,
                pd_offset := (case node w2 of None \<Rightarrow> 0 | Some start \<Rightarrow> ucast (start div 4096 * 4))\<rparr>"
  have sp: "gen6_space ?g" by (simp add: gen6_space_def p2 wf_tables_def list_all_iff)
  have rg: "gen6_range ?g 0 0 (GEN6_PPGTT_PD_ENTRIES * I915_PPGTT_PT_ENTRIES)"
    by (simp add: gen6_range_def p2)
  have ln: "unat (0x80000000 :: 64 word) = GEN6_PPGTT_PD_ENTRIES * I915_PPGTT_PT_ENTRIES * PAGE_SIZE"
    by simp
  have "gen6_ppgtt_clear_range ?g 0 0x80000000 True \<noteq> None"
    using gen6_clear_range_eq[OF sp rg ln] by simp
  then show ?thesis
    using sw al st n2 by (auto simp add: gen6_ppgtt_init_def Let_def split: option.splits)
qed

lemma gen6_init_map_failure:
  assumes "gen6_select_switch_mm env \<noteq> None" "drm_mm_initialized env"
    "drm_mm_insert_node env 0 = Inr start"
    "kcalloc_pt_pages env" "\<forall>j<GEN6_PPGTT_PD_ENTRIES. alloc_page env j \<noteq> None"
    "kcalloc_pt_dma_addr env"
    "k < GEN6_PPGTT_PD_ENTRIES" "\<forall>j<k. pci_map_page env j \<noteq> None" "pci_map_page env k = None"
    "dma_mapped w = []"
  shows "fst (gen6_ppgtt_init h env w) = Some EIO"
    and "node (snd (gen6_ppgtt_init h env w)) = Some start"
    and "pages_held (snd (gen6_ppgtt_init h env w)) = pages_held w"
    and "dma_mapped (snd (gen6_ppgtt_init h env w)) = []"
    and "stray_unmaps (snd (gen6_ppgtt_init h env w)) =
         stray_unmaps w + (GEN6_PPGTT_PD_ENTRIES - k)"
    and "\<not> pt_pages_live (snd (gen6_ppgtt_init h env w))"
    and "\<not> pt_dma_addr_live (snd (gen6_ppgtt_init h env w))"
proof -
  obtain sw where sw: "gen6_select_switch_mm env = Some sw" using assms(1) by blast
  let ?wa = "w\<lparr>hw := (hw w)\<lparr>pte_encode := gtt_base_pte_encode env, switch_mm := Some sw\<rparr>\<rparr>"
  let ?P = "map (\<lambda>j. map (the (alloc_page env j)) [0..<I915_PPGTT_PT_ENTRIES])
              [0..<GEN6_PPGTT_PD_ENTRIES]"
  let ?g = "\<lambda>j. the (pci_map_page env j)"
  obtain w1 where al: "gen6_ppgtt_alloc env ?wa = (None, w1)" and nd: "node w1 = Some start"
    using gen6_alloc_ok[OF assms(2-6), of ?wa] by (cases "gen6_ppgtt_alloc env ?wa") simp
  then have f1: "fst (gen6_ppgtt_alloc env ?wa) = None" by simp
  note R = gen6_alloc_result[OF f1, unfolded al snd_conv]
  have h1: "hw w1 =
      (hw ?wa)\<lparr>num_pd_entries := GEN6_PPGTT_PD_ENTRIES, pt_pages := ?P,
                pt_dma_addr := replicate GEN6_PPGTT_PD_ENTRIES 0\<rparr>"
    using R(1) .
  have n1: "num_pd_entries (hw w1) = GEN6_PPGTT_PD_ENTRIES" unfolding h1 by simp
  have d1: "pt_dma_addr (hw w1) = replicate GEN6_PPGTT_PD_ENTRIES 0" unfolding h1 by simp
  have m1: "dma_mapped w1 = []" using R(6) assms(10) by simp
  let ?W = "w1\<lparr>hw := (hw w1)\<lparr>pt_dma_addr :=
                  fold (\<lambda>j l. l[j := ?g j]) [0..<k] (pt_dma_addr (hw w1))\<rparr>,
              dma_mapped := dma_mapped w1 @ map ?g [0..<k]\<rparr>"
  have a: "\<forall>j. 0 \<le> j \<and> j < k \<longrightarrow> pci_map_page env j \<noteq> None" using assms(8) by simp
  have kn: "k \<le> num_pd_entries (hw w1)" using assms(7) n1 by simp
  have "gen6_ppgtt_setup_page_tables env w1 = gen6_setup_loop env ?W k"
    unfolding gen6_ppgtt_setup_page_tables_def by (rule gen6_setup_loop_run[OF a _ kn]) simp
  also have "\<dots> = (Some EIO, gen6_ppgtt_unmap_pages ?W)"
    by (rule gen6_setup_loop_fail) (simp_all add: n1 assms(7,9))
  finally have st: "gen6_ppgtt_setup_page_tables env w1 = (Some EIO, gen6_ppgtt_unmap_pages ?W)" .
  have dW: "pt_dma_addr (hw ?W) = map ?g [0..<k] @ replicate (GEN6_PPGTT_PD_ENTRIES - k) 0"
    using assms(7) by (simp add: d1 fold_update_replicate)
  have U: "gen6_ppgtt_unmap_pages ?W =
           ?W\<lparr>dma_mapped := [],
              stray_unmaps := stray_unmaps ?W + length (replicate (GEN6_PPGTT_PD_ENTRIES - k) (0 :: dma_addr_t))\<rparr>"
  proof (rule gen6_unmap_pages_eq)
    show "pt_dma_addr_live ?W" using R(4) by simp
    show "pt_dma_addr (hw ?W) = map ?g [0..<k] @ replicate (GEN6_PPGTT_PD_ENTRIES - k) 0"
      by (rule dW)
    show "length (map ?g [0..<k] @ replicate (GEN6_PPGTT_PD_ENTRIES - k) (0 :: dma_addr_t)) =
          num_pd_entries (hw ?W)"
      using assms(7) by (simp add: n1)
    show "dma_mapped ?W = map ?g [0..<k]" by (simp add: m1)
  qed
  let ?U = "gen6_ppgtt_unmap_pages ?W"
  have hU: "hw ?U = hw ?W" unfolding U by simp
  have F: "gen6_ppgtt_free ?U =
           ?U\<lparr>pt_dma_addr_live := False, pages_held := pages_held ?U - num_pd_entries (hw ?U),
              pt_pages_live := False\<rparr>"
  proof (rule gen6_ppgtt_free_eq)
    have "num_pd_entries (hw ?W) \<le> length (pt_pages (hw ?W))" by (simp add: h1)
    then show "num_pd_entries (hw ?U) \<le> length (pt_pages (hw ?U))" unfolding hU .
  qed
  have r: "gen6_ppgtt_init h env w = (Some EIO, gen6_ppgtt_free ?U)"
    using sw al st by (simp add: gen6_ppgtt_init_def Let_def)
  show "fst (gen6_ppgtt_init h env w) = Some EIO" unfolding r by simp
  show "node (snd (gen6_ppgtt_init h env w)) = Some start"
    unfolding r snd_conv F unfolding U by (simp add: nd)
  show "pages_held (snd (gen6_ppgtt_init h env w)) = pages_held w"
    unfolding r snd_conv F unfolding hU unfolding U by (simp add: R(5) n1)
  show "dma_mapped (snd (gen6_ppgtt_init h env w)) = []"
    unfolding r snd_conv F unfolding U by simp
  show "stray_unmaps (snd (gen6_ppgtt_init h env w)) =
         stray_unmaps w + (GEN6_PPGTT_PD_ENTRIES - k)"
    unfolding r snd_conv F unfolding U by (simp add: R(7))
  show "\<not> pt_pages_live (snd (gen6_ppgtt_init h env w))"
    unfolding r snd_conv F by simp
  show "\<not> pt_dma_addr_live (snd (gen6_ppgtt_init h env w))"
    unfolding r snd_conv F by simp
qed

subsection \<open>The gen8 allocator\<close>

declare gen8_alloc_pt_loop.simps [simp del] gen8_allocate_pt_loop.simps [simp del]
  gen8_allocate_dma_loop.simps [simp del] gen8_setup_pt_loop.simps [simp del]
  gen8_setup_loop.simps [simp del]

lemma wf_tables_snoc:
  "wf_tables n pts \<Longrightarrow> length pt = n \<Longrightarrow> wf_tables n (pts @ [pt])"
  by (simp add: wf_tables_def)

lemma wf_dirs_snoc:
  "wf_dirs pds \<Longrightarrow> length pd = 512 \<Longrightarrow> wf_tables 512 pd \<Longrightarrow> wf_dirs (pds @ [pd])"
  by (simp add: wf_dirs_def)

lemma gen8_alloc_pt_loop_wf:
  assumes "gen8_alloc_pt_loop alloc pts i = Some r" "wf_tables 512 pts" "length pts = i" "i \<le> 512"
  shows "wf_tables 512 r \<and> length r = 512"
  using assms
proof (induction k \<equiv> "512 - i" arbitrary: pts i)
  case 0
  then have "i = 512" by simp
  then have "gen8_alloc_pt_loop alloc pts i = Some pts" by (subst gen8_alloc_pt_loop.simps) simp
  then show ?case using 0 by simp
next
  case (Suc k)
  then have lt: "i < 512" by simp
  obtain f where f: "alloc i = Some f"
    using Suc.prems(1) lt by (subst (asm) gen8_alloc_pt_loop.simps) (auto split: option.splits)
  have e: "gen8_alloc_pt_loop alloc pts i =
           gen8_alloc_pt_loop alloc (pts @ [map f [0..<GEN8_PTES_PER_PAGE]]) (i + 1)"
    using lt f by (subst gen8_alloc_pt_loop.simps) simp
  show ?case
  proof (rule Suc.hyps(1))
    show "k = 512 - (i + 1)" using Suc.hyps(2) by simp
    show "gen8_alloc_pt_loop alloc (pts @ [map f [0..<GEN8_PTES_PER_PAGE]]) (i + 1) = Some r"
      using Suc.prems(1) e by simp
    show "wf_tables 512 (pts @ [map f [0..<GEN8_PTES_PER_PAGE]])"
      using Suc.prems(2) by (intro wf_tables_snoc) simp_all
    show "length (pts @ [map f [0..<GEN8_PTES_PER_PAGE]]) = i + 1" using Suc.prems(3) by simp
    show "i + 1 \<le> 512" using lt by simp
  qed
qed

lemma gen8_alloc_pt_loop_ok:
  assumes "\<forall>j<GEN8_PDES_PER_PAGE. alloc j \<noteq> None"
  shows "gen8_alloc_pt_loop alloc pts i \<noteq> None"
proof (induction k \<equiv> "512 - i" arbitrary: pts i)
  case 0
  then show ?case by (subst gen8_alloc_pt_loop.simps) simp
next
  case (Suc k)
  then have lt: "i < 512" by simp
  then obtain f where f: "alloc i = Some f" using assms by fastforce
  have e: "gen8_alloc_pt_loop alloc pts i =
           gen8_alloc_pt_loop alloc (pts @ [map f [0..<GEN8_PTES_PER_PAGE]]) (i + 1)"
    using lt f by (subst gen8_alloc_pt_loop.simps) simp
  have "k = 512 - (i + 1)" using Suc.hyps(2) by simp
  from Suc.hyps(1)[OF this] show ?case unfolding e .
qed

lemma gen8_alloc_page_tables_wf:
  assumes "gen8_alloc_page_tables env pd = Inr p"
  shows "wf_tables 512 p \<and> length p = 512"
proof -
  have "gen8_alloc_pt_loop (alloc_gen8_page env pd) [] 0 = Some p"
    using assms by (auto simp add: gen8_alloc_page_tables_def split: if_splits option.splits)
  then show ?thesis by (rule gen8_alloc_pt_loop_wf) (simp_all add: wf_tables_def)
qed

lemma gen8_alloc_page_tables_ok:
  assumes "kcalloc_gen8_pt_pages env pd" "\<forall>j<GEN8_PDES_PER_PAGE. alloc_gen8_page env pd j \<noteq> None"
  shows "\<exists>p. gen8_alloc_page_tables env pd = Inr p"
  using assms(1) gen8_alloc_pt_loop_ok[OF assms(2), of "[]" 0]
  by (auto simp add: gen8_alloc_page_tables_def split: option.splits)

lemma gen8_allocate_pt_loop_wf:
  assumes "gen8_allocate_pt_loop env max_pdp pts i = Inr r" "wf_dirs pts" "length pts = i"
    "i \<le> 4" "i \<le> nat max_pdp"
  shows "wf_dirs r \<and> length r = nat max_pdp \<and> nat max_pdp \<le> 4"
  using assms
proof (induction k \<equiv> "4 - i" arbitrary: pts i)
  case 0
  then have i: "i = 4" by simp
  have "\<not> int i < max_pdp"
  proof
    assume "int i < max_pdp"
    then have "gen8_allocate_pt_loop env max_pdp pts i = Inl FAULT"
      using i by (subst gen8_allocate_pt_loop.simps) simp
    then show False using "0.prems"(1) by simp
  qed
  then have "gen8_allocate_pt_loop env max_pdp pts i = Inr pts"
    by (subst gen8_allocate_pt_loop.simps) simp
  moreover have "nat max_pdp \<le> i" using \<open>\<not> int i < max_pdp\<close> by linarith
  ultimately show ?case using 0 by simp
next
  case (Suc k)
  then have lt: "i < 4" by simp
  show ?case
  proof (cases "int i < max_pdp")
    case False
    then have "gen8_allocate_pt_loop env max_pdp pts i = Inr pts"
      by (subst gen8_allocate_pt_loop.simps) simp
    moreover have "nat max_pdp \<le> i" using False by linarith
    ultimately show ?thesis using Suc.prems by simp
  next
    case True
    then obtain p where p: "gen8_alloc_page_tables env i = Inr p"
      using Suc.prems(1) lt
      by (subst (asm) gen8_allocate_pt_loop.simps) (auto split: sum.splits)
    have e: "gen8_allocate_pt_loop env max_pdp pts i =
             gen8_allocate_pt_loop env max_pdp (pts @ [p]) (i + 1)"
      using True lt p by (subst gen8_allocate_pt_loop.simps) simp
    show ?thesis
    proof (rule Suc.hyps(1))
      show "k = 4 - (i + 1)" using Suc.hyps(2) by simp
      show "gen8_allocate_pt_loop env max_pdp (pts @ [p]) (i + 1) = Inr r"
        using Suc.prems(1) e by simp
      show "wf_dirs (pts @ [p])"
        using Suc.prems(2) gen8_alloc_page_tables_wf[OF p] by (intro wf_dirs_snoc) simp_all
      show "length (pts @ [p]) = i + 1" using Suc.prems(3) by simp
      show "i + 1 \<le> 4" using lt by simp
      show "i + 1 \<le> nat max_pdp" using True by linarith
    qed
  qed
qed

lemma gen8_allocate_pt_loop_ok:
  assumes "max_pdp \<le> 4"
    "\<forall>i<nat max_pdp. kcalloc_gen8_pt_pages env i \<and>
       (\<forall>j<GEN8_PDES_PER_PAGE. alloc_gen8_page env i j \<noteq> None)"
  shows "\<exists>r. gen8_allocate_pt_loop env max_pdp pts i = Inr r"
proof (induction k \<equiv> "nat max_pdp - i" arbitrary: pts i)
  case 0
  then have "\<not> int i < max_pdp" by linarith
  then show ?case by (subst gen8_allocate_pt_loop.simps) simp
next
  case (Suc k)
  then have lt: "int i < max_pdp" and lt': "i < nat max_pdp" by linarith+
  then have i4: "i < 4" using assms(1) by linarith
  obtain p where p: "gen8_alloc_page_tables env i = Inr p"
    using gen8_alloc_page_tables_ok[of env i] assms(2) lt' by blast
  have e: "gen8_allocate_pt_loop env max_pdp pts i =
           gen8_allocate_pt_loop env max_pdp (pts @ [p]) (i + 1)"
    using lt i4 p by (subst gen8_allocate_pt_loop.simps) simp
  have "k = nat max_pdp - (i + 1)" using Suc.hyps(2) by simp
  from Suc.hyps(1)[OF this] show ?case unfolding e .
qed

lemma gen8_allocate_dma_loop_fields:
  "gen8_pt_pages (snd (gen8_allocate_dma_loop env ppgtt i)) = gen8_pt_pages ppgtt \<and>
   num_pd_entries (snd (gen8_allocate_dma_loop env ppgtt i)) = num_pd_entries ppgtt \<and>
   num_pd_pages (snd (gen8_allocate_dma_loop env ppgtt i)) = num_pd_pages ppgtt \<and>
   scratch_addr (snd (gen8_allocate_dma_loop env ppgtt i)) = scratch_addr ppgtt \<and>
   pd_dma_addr (snd (gen8_allocate_dma_loop env ppgtt i)) = pd_dma_addr ppgtt"
proof (induction k \<equiv> "num_pd_pages ppgtt - i" arbitrary: ppgtt i)
  case 0
  then have "gen8_allocate_dma_loop env ppgtt i = (None, ppgtt)"
    by (subst gen8_allocate_dma_loop.simps) simp
  then show ?case by simp
next
  case (Suc k)
  then have lt: "i < num_pd_pages ppgtt" by simp
  let ?p = "ppgtt\<lparr>gen8_pt_dma_addr := gen8_pt_dma_addr ppgtt @ [replicate GEN8_PDES_PER_PAGE 0]\<rparr>"
  show ?case
  proof (cases "kcalloc_gen8_pt_dma_addr env i")
    case False
    then have "gen8_allocate_dma_loop env ppgtt i = (Some ENOMEM, ppgtt)"
      using lt by (subst gen8_allocate_dma_loop.simps) simp
    then show ?thesis by simp
  next
    case True
    then have e: "gen8_allocate_dma_loop env ppgtt i = gen8_allocate_dma_loop env ?p (i + 1)"
      using lt by (subst gen8_allocate_dma_loop.simps) simp
    have "k = num_pd_pages ?p - (i + 1)" using Suc.hyps(2) by simp
    from Suc.hyps(1)[OF this] show ?thesis unfolding e by simp
  qed
qed

lemma gen8_allocate_dma_loop_ok:
  assumes "\<forall>j<num_pd_pages ppgtt. kcalloc_gen8_pt_dma_addr env j"
  shows "fst (gen8_allocate_dma_loop env ppgtt i) = None \<and>
         length (gen8_pt_dma_addr (snd (gen8_allocate_dma_loop env ppgtt i))) =
           length (gen8_pt_dma_addr ppgtt) + (num_pd_pages ppgtt - i)"
  using assms
proof (induction k \<equiv> "num_pd_pages ppgtt - i" arbitrary: ppgtt i)
  case 0
  then have "gen8_allocate_dma_loop env ppgtt i = (None, ppgtt)"
    by (subst gen8_allocate_dma_loop.simps) simp
  then show ?case using 0 by simp
next
  case (Suc k)
  then have lt: "i < num_pd_pages ppgtt" by simp
  let ?p = "ppgtt\<lparr>gen8_pt_dma_addr := gen8_pt_dma_addr ppgtt @ [replicate GEN8_PDES_PER_PAGE 0]\<rparr>"
  have e: "gen8_allocate_dma_loop env ppgtt i = gen8_allocate_dma_loop env ?p (i + 1)"
    using lt Suc.prems by (subst gen8_allocate_dma_loop.simps) simp
  have k: "k = num_pd_pages ?p - (i + 1)" using Suc.hyps(2) by simp
  have a: "\<forall>j<num_pd_pages ?p. kcalloc_gen8_pt_dma_addr env j" using Suc.prems by simp
  from Suc.hyps(1)[OF k a] show ?case unfolding e using lt by simp
qed

lemma gen8_setup_page_tables_fields:
  "gen8_pt_pages (snd (gen8_ppgtt_setup_page_tables env ppgtt i j)) = gen8_pt_pages ppgtt \<and>
   num_pd_entries (snd (gen8_ppgtt_setup_page_tables env ppgtt i j)) = num_pd_entries ppgtt \<and>
   scratch_addr (snd (gen8_ppgtt_setup_page_tables env ppgtt i j)) = scratch_addr ppgtt \<and>
   length (pd_dma_addr (snd (gen8_ppgtt_setup_page_tables env ppgtt i j))) =
     length (pd_dma_addr ppgtt) \<and>
   length (gen8_pt_dma_addr (snd (gen8_ppgtt_setup_page_tables env ppgtt i j))) =
     length (gen8_pt_dma_addr ppgtt)"
  by (simp add: gen8_ppgtt_setup_page_tables_def split: sum.splits)

lemma gen8_setup_page_directories_fields:
  "gen8_pt_pages (snd (gen8_ppgtt_setup_page_directories env ppgtt i)) = gen8_pt_pages ppgtt \<and>
   num_pd_entries (snd (gen8_ppgtt_setup_page_directories env ppgtt i)) = num_pd_entries ppgtt \<and>
   scratch_addr (snd (gen8_ppgtt_setup_page_directories env ppgtt i)) = scratch_addr ppgtt \<and>
   length (pd_dma_addr (snd (gen8_ppgtt_setup_page_directories env ppgtt i))) =
     length (pd_dma_addr ppgtt) \<and>
   length (gen8_pt_dma_addr (snd (gen8_ppgtt_setup_page_directories env ppgtt i))) =
     length (gen8_pt_dma_addr ppgtt)"
  by (simp add: gen8_ppgtt_setup_page_directories_def split: sum.splits)

lemma gen8_setup_pt_loop_fields:
  "gen8_pt_pages (snd (gen8_setup_pt_loop env ppgtt i j)) = gen8_pt_pages ppgtt \<and>
   num_pd_entries (snd (gen8_setup_pt_loop env ppgtt i j)) = num_pd_entries ppgtt \<and>
   scratch_addr (snd (gen8_setup_pt_loop env ppgtt i j)) = scratch_addr ppgtt \<and>
   length (pd_dma_addr (snd (gen8_setup_pt_loop env ppgtt i j))) = length (pd_dma_addr ppgtt) \<and>
   length (gen8_pt_dma_addr (snd (gen8_setup_pt_loop env ppgtt i j))) =
     length (gen8_pt_dma_addr ppgtt)"
proof (induction k \<equiv> "512 - j" arbitrary: ppgtt j)
  case 0
  then have "gen8_setup_pt_loop env ppgtt i j = (None, ppgtt)"
    by (subst gen8_setup_pt_loop.simps) simp
  then show ?case by simp
next
  case (Suc k)
  then have lt: "j < 512" by simp
  obtain r p where s: "gen8_ppgtt_setup_page_tables env ppgtt i j = (r, p)"
    by (cases "gen8_ppgtt_setup_page_tables env ppgtt i j")
  note f = gen8_setup_page_tables_fields[of env ppgtt i j, unfolded s snd_conv]
  show ?case
  proof (cases r)
    case (Some ret)
    then have "gen8_setup_pt_loop env ppgtt i j = (Some ret, p)"
      using lt s by (subst gen8_setup_pt_loop.simps) simp
    then show ?thesis using f by simp
  next
    case None
    then have e: "gen8_setup_pt_loop env ppgtt i j = gen8_setup_pt_loop env p i (j + 1)"
      using lt s by (subst gen8_setup_pt_loop.simps) simp
    have "k = 512 - (j + 1)" using Suc.hyps(2) by simp
    from Suc.hyps(1)[OF this, of p] show ?thesis unfolding e using f by simp
  qed
qed

lemma gen8_setup_pt_loop_ok:
  assumes "\<forall>j<GEN8_PDES_PER_PAGE. \<exists>a. pci_map_pt_page env i j = Inr a"
    "i < length (gen8_pt_dma_addr ppgtt)"
  shows "fst (gen8_setup_pt_loop env ppgtt i j) = None"
  using assms(2)
proof (induction k \<equiv> "512 - j" arbitrary: ppgtt j)
  case 0
  then have "gen8_setup_pt_loop env ppgtt i j = (None, ppgtt)"
    by (subst gen8_setup_pt_loop.simps) simp
  then show ?case by simp
next
  case (Suc k)
  then have lt: "j < 512" by simp
  then obtain a where a: "pci_map_pt_page env i j = Inr a" using assms(1) by blast
  let ?p = "ppgtt\<lparr>gen8_pt_dma_addr :=
              (gen8_pt_dma_addr ppgtt)[i := (gen8_pt_dma_addr ppgtt ! i)[j := a]]\<rparr>"
  have s: "gen8_ppgtt_setup_page_tables env ppgtt i j = (None, ?p)"
    using a Suc.prems by (simp add: gen8_ppgtt_setup_page_tables_def)
  have e: "gen8_setup_pt_loop env ppgtt i j = gen8_setup_pt_loop env ?p i (j + 1)"
    using lt s by (subst gen8_setup_pt_loop.simps) simp
  have k: "k = 512 - (j + 1)" using Suc.hyps(2) by simp
  have l: "i < length (gen8_pt_dma_addr ?p)" using Suc.prems by simp
  from Suc.hyps(1)[OF k l] show ?case unfolding e .
qed

lemma gen8_setup_loop_fields:
  "gen8_pt_pages (snd (gen8_setup_loop env max_pdp ppgtt i)) = gen8_pt_pages ppgtt \<and>
   num_pd_entries (snd (gen8_setup_loop env max_pdp ppgtt i)) = num_pd_entries ppgtt \<and>
   scratch_addr (snd (gen8_setup_loop env max_pdp ppgtt i)) = scratch_addr ppgtt"
proof (induction k \<equiv> "nat max_pdp - i" arbitrary: ppgtt i)
  case 0
  then have "\<not> int i < max_pdp" by linarith
  then have "gen8_setup_loop env max_pdp ppgtt i = (None, ppgtt)"
    by (subst gen8_setup_loop.simps) simp
  then show ?case by simp
next
  case (Suc k)
  then have lt: "int i < max_pdp" by linarith
  obtain r p where s: "gen8_ppgtt_setup_page_directories env ppgtt i = (r, p)"
    by (cases "gen8_ppgtt_setup_page_directories env ppgtt i")
  note f = gen8_setup_page_directories_fields[of env ppgtt i, unfolded s snd_conv]
  obtain r' p' where s': "gen8_setup_pt_loop env p i 0 = (r', p')"
    by (cases "gen8_setup_pt_loop env p i 0")
  note f' = gen8_setup_pt_loop_fields[of env p i 0, unfolded s' snd_conv]
  show ?case
  proof (cases r)
    case (Some ret)
    then have "gen8_setup_loop env max_pdp ppgtt i = (Some ret, p)"
      using lt s by (subst gen8_setup_loop.simps) simp
    then show ?thesis using f by simp
  next
    case None
    show ?thesis
    proof (cases r')
      case (Some ret)
      then have "gen8_setup_loop env max_pdp ppgtt i = (Some ret, p')"
        using lt s s' None by (subst gen8_setup_loop.simps) simp
      then show ?thesis using f f' by simp
    next
      case None': None
      have e: "gen8_setup_loop env max_pdp ppgtt i = gen8_setup_loop env max_pdp p' (i + 1)"
        using lt s s' None None' by (subst gen8_setup_loop.simps) simp
      have "k = nat max_pdp - (i + 1)" using Suc.hyps(2) by simp
      from Suc.hyps(1)[OF this, of p'] show ?thesis unfolding e using f f' by simp
    qed
  qed
qed

lemma gen8_setup_loop_ok:
  assumes "\<forall>i<nat max_pdp. (\<exists>a. pci_map_pd_page env i = Inr a) \<and>
             (\<forall>j<GEN8_PDES_PER_PAGE. \<exists>a. pci_map_pt_page env i j = Inr a)"
    "nat max_pdp \<le> length (pd_dma_addr ppgtt)"
    "nat max_pdp \<le> length (gen8_pt_dma_addr ppgtt)"
  shows "fst (gen8_setup_loop env max_pdp ppgtt i) = None"
  using assms(2,3)
proof (induction k \<equiv> "nat max_pdp - i" arbitrary: ppgtt i)
  case 0
  then have "\<not> int i < max_pdp" by linarith
  then have "gen8_setup_loop env max_pdp ppgtt i = (None, ppgtt)"
    by (subst gen8_setup_loop.simps) simp
  then show ?case by simp
next
  case (Suc k)
  then have lt: "int i < max_pdp" and lt': "i < nat max_pdp" by linarith+
  obtain a where a: "pci_map_pd_page env i = Inr a" using assms(1) lt' by blast
  let ?p = "ppgtt\<lparr>pd_dma_addr := (pd_dma_addr ppgtt)[i := a]\<rparr>"
  have s: "gen8_ppgtt_setup_page_directories env ppgtt i = (None, ?p)"
    using a lt' Suc.prems by (simp add: gen8_ppgtt_setup_page_directories_def)
  obtain r' p' where s': "gen8_setup_pt_loop env ?p i 0 = (r', p')"
    by (cases "gen8_setup_pt_loop env ?p i 0")
  have "fst (gen8_setup_pt_loop env ?p i 0) = None"
    by (rule gen8_setup_pt_loop_ok) (use assms(1) lt' Suc.prems in auto)
  then have r': "r' = None" using s' by simp
  note f' = gen8_setup_pt_loop_fields[of env ?p i 0, unfolded s' snd_conv]
  have e: "gen8_setup_loop env max_pdp ppgtt i = gen8_setup_loop env max_pdp p' (i + 1)"
    using lt s s' r' by (subst gen8_setup_loop.simps) simp
  have k: "k = nat max_pdp - (i + 1)" using Suc.hyps(2) by simp
  have l1: "nat max_pdp \<le> length (pd_dma_addr p')" using f' Suc.prems by simp
  have l2: "nat max_pdp \<le> length (gen8_pt_dma_addr p')" using f' Suc.prems by simp
  from Suc.hyps(1)[OF k l1 l2] show ?case unfolding e .
qed

lemma pd_write_all:
  assumes "wf_dirs pds" "length pds = m"
  shows "pd_write pds 0 (replicate (m * 262144) v) = replicate m (replicate 512 (replicate 512 v))"
proof (rule dirs_eqI)
  show "wf_dirs (pd_write pds 0 (replicate (m * 262144) v))" by simp
  show "wf_dirs (replicate m (replicate 512 (replicate 512 v)))" by simp
  show "length (pd_write pds 0 (replicate (m * 262144) v)) =
        length (replicate m (replicate 512 (replicate 512 v)))"
    using assms(2) by simp
next
  fix i j e :: nat
  assume "i < length (pd_write pds 0 (replicate (m * 262144) v))" and j: "j < 512" and e: "e < 512"
  then have i: "i < m" using assms(2) by simp
  have il: "i < length pds" using i assms(2) by simp
  have "gen8_index i j 0 + 512 \<le> m * 262144" using i j by (rule gen8_index_page_bound)
  then have lt: "gen8_index i j e < m * 262144"
    using e gen8_index_split[of i j e] by linarith
  show "pd_write pds 0 (replicate (m * 262144) v) ! i ! j ! e =
        replicate m (replicate 512 (replicate 512 v)) ! i ! j ! e"
    unfolding pd_write_replicate_nth[OF il j e] using lt i j e by simp
qed

lemma gen8_clear_range_empty:
  assumes "gen8_pt_pages ppgtt = []" "gen8_ppgtt_clear_range h ppgtt start len us = Some p"
  shows "gen8_pt_pages p = []"
  using assms
  by (auto simp add: gen8_ppgtt_clear_range_def Let_def gen8_clear_loop.simps[of _ "[]"]
      split: if_splits)

lemma gen8_alloc_result:
  assumes "fst (gen8_ppgtt_alloc env ppgtt max_pdp) = None"
  shows "wf_dirs (gen8_pt_pages (snd (gen8_ppgtt_alloc env ppgtt max_pdp)))"
    and "length (gen8_pt_pages (snd (gen8_ppgtt_alloc env ppgtt max_pdp))) = nat max_pdp"
    and "nat max_pdp \<le> 4"
    and "num_pd_entries (snd (gen8_ppgtt_alloc env ppgtt max_pdp)) =
         nat ((max_pdp * int GEN8_PDES_PER_PAGE) mod 2 ^ 32)"
    and "scratch_addr (snd (gen8_ppgtt_alloc env ppgtt max_pdp)) = scratch_addr ppgtt"
proof -
  obtain r1 p1 where a1: "gen8_ppgtt_allocate_page_directories env ppgtt max_pdp = (r1, p1)"
    by (cases "gen8_ppgtt_allocate_page_directories env ppgtt max_pdp")
  have r1: "r1 = None" using assms a1 by (auto simp add: gen8_ppgtt_alloc_def split: option.splits)
  have s1: "scratch_addr p1 = scratch_addr ppgtt"
    using a1 by (auto simp add: gen8_ppgtt_allocate_page_directories_def Let_def split: if_splits)
  obtain r2 p2 where a2: "gen8_ppgtt_allocate_page_tables env p1 max_pdp = (r2, p2)"
    by (cases "gen8_ppgtt_allocate_page_tables env p1 max_pdp")
  have r2: "r2 = None"
    using assms a1 r1 a2 by (auto simp add: gen8_ppgtt_alloc_def split: option.splits)
  obtain r where l: "gen8_allocate_pt_loop env max_pdp [] 0 = Inr r"
    and p2: "p2 = p1\<lparr>gen8_pt_pages := r\<rparr>"
    using a2 r2 by (auto simp add: gen8_ppgtt_allocate_page_tables_def split: sum.splits)
  have wf: "wf_dirs r \<and> length r = nat max_pdp \<and> nat max_pdp \<le> 4"
    using l by (rule gen8_allocate_pt_loop_wf) (simp_all add: wf_dirs_def)
  let ?p3 = "p2\<lparr>num_pd_entries := nat ((max_pdp * int GEN8_PDES_PER_PAGE) mod 2 ^ 32)\<rparr>"
  have e: "gen8_ppgtt_alloc env ppgtt max_pdp =
           gen8_allocate_dma_loop env (?p3\<lparr>gen8_pt_dma_addr := []\<rparr>) 0"
    using a1 r1 a2 r2 by (simp add: gen8_ppgtt_alloc_def gen8_ppgtt_allocate_dma_def)
  note f = gen8_allocate_dma_loop_fields[of env "?p3\<lparr>gen8_pt_dma_addr := []\<rparr>" 0]
  show "wf_dirs (gen8_pt_pages (snd (gen8_ppgtt_alloc env ppgtt max_pdp)))"
    unfolding e using f wf by (simp add: p2)
  show "length (gen8_pt_pages (snd (gen8_ppgtt_alloc env ppgtt max_pdp))) = nat max_pdp"
    unfolding e using f wf by (simp add: p2)
  show "nat max_pdp \<le> 4" using wf by simp
  show "num_pd_entries (snd (gen8_ppgtt_alloc env ppgtt max_pdp)) =
         nat ((max_pdp * int GEN8_PDES_PER_PAGE) mod 2 ^ 32)"
    unfolding e using f by simp
  show "scratch_addr (snd (gen8_ppgtt_alloc env ppgtt max_pdp)) = scratch_addr ppgtt"
    unfolding e using f s1 by (simp add: p2)
qed

lemma gen8_alloc_ok:
  assumes "alloc_pd_pages env" "2 ^ get_order env (max_pdp * 2 ^ PAGE_SHIFT) \<le> GEN8_LEGACY_PDPS"
    "max_pdp \<le> 4"
    "\<forall>i<nat max_pdp. kcalloc_gen8_pt_pages env i \<and>
       (\<forall>j<GEN8_PDES_PER_PAGE. alloc_gen8_page env i j \<noteq> None)"
    "\<forall>i<2 ^ get_order env (max_pdp * 2 ^ PAGE_SHIFT). kcalloc_gen8_pt_dma_addr env i"
  shows "fst (gen8_ppgtt_alloc env ppgtt max_pdp) = None"
    and "length (gen8_pt_dma_addr (snd (gen8_ppgtt_alloc env ppgtt max_pdp))) =
         2 ^ get_order env (max_pdp * 2 ^ PAGE_SHIFT)"
    and "pd_dma_addr (snd (gen8_ppgtt_alloc env ppgtt max_pdp)) = pd_dma_addr ppgtt"
proof -
  let ?n = "2 ^ get_order env (max_pdp * 2 ^ PAGE_SHIFT) :: nat"
  let ?p1 = "ppgtt\<lparr>num_pd_pages := ?n\<rparr>"
  have a1: "gen8_ppgtt_allocate_page_directories env ppgtt max_pdp = (None, ?p1)"
    using assms(1,2) by (simp add: gen8_ppgtt_allocate_page_directories_def Let_def)
  obtain r where l: "gen8_allocate_pt_loop env max_pdp [] 0 = Inr r"
    using gen8_allocate_pt_loop_ok[OF assms(3,4)] by blast
  let ?p2 = "?p1\<lparr>gen8_pt_pages := r\<rparr>"
  have a2: "gen8_ppgtt_allocate_page_tables env ?p1 max_pdp = (None, ?p2)"
    using l by (simp add: gen8_ppgtt_allocate_page_tables_def)
  let ?p3 = "?p2\<lparr>num_pd_entries := nat ((max_pdp * int GEN8_PDES_PER_PAGE) mod 2 ^ 32),
               gen8_pt_dma_addr := []\<rparr>"
  have e: "gen8_ppgtt_alloc env ppgtt max_pdp = gen8_allocate_dma_loop env ?p3 0"
    using a1 a2 by (simp add: gen8_ppgtt_alloc_def gen8_ppgtt_allocate_dma_def)
  have n3: "num_pd_pages ?p3 = ?n" by simp
  have "\<forall>j<num_pd_pages ?p3. kcalloc_gen8_pt_dma_addr env j" unfolding n3 using assms(5) .
  note k = gen8_allocate_dma_loop_ok[OF this, of 0]
  note f = gen8_allocate_dma_loop_fields[of env ?p3 0]
  show "fst (gen8_ppgtt_alloc env ppgtt max_pdp) = None" unfolding e using k by simp
  show "length (gen8_pt_dma_addr (snd (gen8_ppgtt_alloc env ppgtt max_pdp))) = ?n"
    unfolding e using k by simp
  show "pd_dma_addr (snd (gen8_ppgtt_alloc env ppgtt max_pdp)) = pd_dma_addr ppgtt"
    unfolding e using f by simp
qed

lemma gen8_total:
  assumes "0 < m" "m \<le> 4"
  shows "nat ((m * int GEN8_PDES_PER_PAGE) mod 2 ^ 32) = nat m * 512"
    and "unat (of_nat (nat m * 512 * GEN8_PTES_PER_PAGE * PAGE_SIZE) :: 64 word) =
         nat m * 262144 * PAGE_SIZE"
proof -
  have "m = 1 \<or> m = 2 \<or> m = 3 \<or> m = 4" using assms by arith
  then show "nat ((m * int GEN8_PDES_PER_PAGE) mod 2 ^ 32) = nat m * 512" by auto
  from \<open>m = 1 \<or> m = 2 \<or> m = 3 \<or> m = 4\<close>
  show "unat (of_nat (nat m * 512 * GEN8_PTES_PER_PAGE * PAGE_SIZE) :: 64 word) =
         nat m * 262144 * PAGE_SIZE"
    by auto
qed

lemma gen8_init_cases:
  assumes "fst (gen8_ppgtt_init h env ppgtt sz) = None"
  obtains p1 p2 p where
    "gen8_ppgtt_alloc env ppgtt (gen8_max_pdp sz) = (None, p1)"
    "gen8_setup_loop env (gen8_max_pdp sz) p1 0 = (None, p2)"
    "gen8_ppgtt_clear_range h
       ((gen8_write_pdes h (gen8_max_pdp sz) p2)\<lparr>switch_mm := Some gen8_mm_switch,
          total := of_nat (num_pd_entries p2 * GEN8_PTES_PER_PAGE * PAGE_SIZE)\<rparr>)
       0 (of_nat (num_pd_entries p2 * GEN8_PTES_PER_PAGE * PAGE_SIZE)) True = Some p"
    "gen8_ppgtt_init h env ppgtt sz = (None, p)"
  using assms
  by (auto simp add: gen8_ppgtt_init_def Let_def gen8_write_pdes_def
      split: option.splits prod.splits)

lemma gen8_init_scratch:
  assumes "fst (gen8_ppgtt_init h env ppgtt sz) = None"
  shows "gen8_pt_pages (snd (gen8_ppgtt_init h env ppgtt sz)) =
         replicate (nat (gen8_max_pdp sz)) (replicate GEN8_PDES_PER_PAGE
           (replicate GEN8_PTES_PER_PAGE
              (gen8_scratch_pte h (snd (gen8_ppgtt_init h env ppgtt sz)))))"
    and "nat (gen8_max_pdp sz) \<le> GEN8_LEGACY_PDPS"
    and "scratch_addr (snd (gen8_ppgtt_init h env ppgtt sz)) = scratch_addr ppgtt"
    and "0 \<le> gen8_max_pdp sz \<Longrightarrow>
         unat (total (snd (gen8_ppgtt_init h env ppgtt sz))) =
         nat (gen8_max_pdp sz) * GEN8_PDES_PER_PAGE * GEN8_PTES_PER_PAGE * PAGE_SIZE"
proof -
  let ?m = "gen8_max_pdp sz"
  from assms obtain p1 p2 p where
    al: "gen8_ppgtt_alloc env ppgtt ?m = (None, p1)"
    and st: "gen8_setup_loop env ?m p1 0 = (None, p2)"
    and cl: "gen8_ppgtt_clear_range h
       ((gen8_write_pdes h ?m p2)\<lparr>switch_mm := Some gen8_mm_switch,
          total := of_nat (num_pd_entries p2 * GEN8_PTES_PER_PAGE * PAGE_SIZE)\<rparr>)
       0 (of_nat (num_pd_entries p2 * GEN8_PTES_PER_PAGE * PAGE_SIZE)) True = Some p"
    and r: "gen8_ppgtt_init h env ppgtt sz = (None, p)"
    by (rule gen8_init_cases)
  have "fst (gen8_ppgtt_alloc env ppgtt ?m) = None" using al by simp
  note A = gen8_alloc_result[OF this, unfolded al snd_conv]
  note S = gen8_setup_loop_fields[of env ?m p1 0, unfolded st snd_conv]
  let ?g = "(gen8_write_pdes h ?m p2)\<lparr>switch_mm := Some gen8_mm_switch,
          total := of_nat (num_pd_entries p2 * GEN8_PTES_PER_PAGE * PAGE_SIZE)\<rparr>"
  have pg: "gen8_pt_pages ?g = gen8_pt_pages p1" using S by (simp add: gen8_write_pdes_def)
  have sg: "scratch_addr ?g = scratch_addr p1" using S by (simp add: gen8_write_pdes_def)
  show m4: "nat ?m \<le> GEN8_LEGACY_PDPS" using A(3) by simp
  have "gen8_pt_pages p = replicate (nat ?m) (replicate 512 (replicate 512 (gen8_scratch_pte h p)))"
  proof (cases "0 < ?m")
    case False
    then have "gen8_pt_pages ?g = []" using A(2) pg by simp
    then have "gen8_pt_pages p = []" using cl by (rule gen8_clear_range_empty)
    then show ?thesis using False by simp
  next
    case True
    then have m: "0 < ?m" "?m \<le> 4" using A(3) by linarith+
    have n2: "num_pd_entries p2 = nat ?m * 512" using S A(4) gen8_total(1)[OF m] by simp
    have sp: "gen8_space ?g" using A(1,2,3) pg by (simp add: gen8_space_def)
    have rg: "gen8_range ?g 0 0 (nat ?m * 262144)" using A(2) pg by (simp add: gen8_range_def)
    have ln: "unat (of_nat (num_pd_entries p2 * GEN8_PTES_PER_PAGE * PAGE_SIZE) :: 64 word) =
              nat ?m * 262144 * PAGE_SIZE"
      unfolding n2 by (rule gen8_total(2)[OF m])
    have "gen8_ppgtt_clear_range h ?g 0
            (of_nat (num_pd_entries p2 * GEN8_PTES_PER_PAGE * PAGE_SIZE)) True =
          Some (?g\<lparr>gen8_pt_pages := pd_write (gen8_pt_pages ?g) 0
                 (replicate (nat ?m * 262144)
                    (fst (gen8_pte_encode h (scratch_addr ?g) I915_CACHE_LLC True)))\<rparr>)"
      using sp rg ln by (rule gen8_clear_range_any)
    then have p: "p = ?g\<lparr>gen8_pt_pages := pd_write (gen8_pt_pages ?g) 0
                 (replicate (nat ?m * 262144)
                    (fst (gen8_pte_encode h (scratch_addr ?g) I915_CACHE_LLC True)))\<rparr>"
      using cl by simp
    have wf: "wf_dirs (gen8_pt_pages ?g)" and lg: "length (gen8_pt_pages ?g) = nat ?m"
      using A(1,2) pg by simp_all
    have "gen8_pt_pages p = replicate (nat ?m) (replicate 512 (replicate 512
            (fst (gen8_pte_encode h (scratch_addr ?g) I915_CACHE_LLC True))))"
      using pd_write_all[OF wf lg,
          of "fst (gen8_pte_encode h (scratch_addr ?g) I915_CACHE_LLC True)"]
      by (subst p) simp
    moreover have "gen8_scratch_pte h p =
           fst (gen8_pte_encode h (scratch_addr ?g) I915_CACHE_LLC True)"
      by (subst p) (simp add: gen8_scratch_pte_def)
    ultimately show ?thesis by simp
  qed
  then show "gen8_pt_pages (snd (gen8_ppgtt_init h env ppgtt sz)) =
         replicate (nat (gen8_max_pdp sz)) (replicate GEN8_PDES_PER_PAGE
           (replicate GEN8_PTES_PER_PAGE
              (gen8_scratch_pte h (snd (gen8_ppgtt_init h env ppgtt sz)))))"
    unfolding r by simp
  have tp: "total p = total ?g" and sa: "scratch_addr p = scratch_addr ?g"
    using cl by (auto simp add: gen8_ppgtt_clear_range_def Let_def)
  show "scratch_addr (snd (gen8_ppgtt_init h env ppgtt sz)) = scratch_addr ppgtt"
    unfolding r using sa sg A(5) by simp
  show "unat (total (snd (gen8_ppgtt_init h env ppgtt sz))) =
         nat ?m * GEN8_PDES_PER_PAGE * GEN8_PTES_PER_PAGE * PAGE_SIZE" if "0 \<le> ?m"
  proof (cases "0 < ?m")
    case False
    then have "?m = 0" using that by simp
    then have "num_pd_entries p2 = 0" using S A(4) by simp
    then show ?thesis unfolding r using tp \<open>?m = 0\<close> by simp
  next
    case True
    then have m: "0 < ?m" "?m \<le> 4" using A(3) by linarith+
    have n2: "num_pd_entries p2 = nat ?m * 512" using S A(4) gen8_total(1)[OF m] by simp
    have "unat (of_nat (num_pd_entries p2 * GEN8_PTES_PER_PAGE * PAGE_SIZE) :: 64 word) =
              nat ?m * 262144 * PAGE_SIZE"
      unfolding n2 by (rule gen8_total(2)[OF m])
    then show ?thesis unfolding r using tp by simp
  qed
qed

lemma gen8_init_ok:
  assumes "0 < gen8_max_pdp sz" "gen8_max_pdp sz \<le> 4" "alloc_pd_pages env"
    "2 ^ get_order env (gen8_max_pdp sz * 2 ^ PAGE_SHIFT) \<le> GEN8_LEGACY_PDPS"
    "nat (gen8_max_pdp sz) \<le> 2 ^ get_order env (gen8_max_pdp sz * 2 ^ PAGE_SHIFT)"
    "\<forall>i<nat (gen8_max_pdp sz). kcalloc_gen8_pt_pages env i \<and>
       (\<forall>j<GEN8_PDES_PER_PAGE. alloc_gen8_page env i j \<noteq> None)"
    "\<forall>i<2 ^ get_order env (gen8_max_pdp sz * 2 ^ PAGE_SHIFT). kcalloc_gen8_pt_dma_addr env i"
    "\<forall>i<nat (gen8_max_pdp sz). (\<exists>a. pci_map_pd_page env i = Inr a) \<and>
             (\<forall>j<GEN8_PDES_PER_PAGE. \<exists>a. pci_map_pt_page env i j = Inr a)"
    "nat (gen8_max_pdp sz) \<le> length (pd_dma_addr ppgtt)"
  shows "fst (gen8_ppgtt_init h env ppgtt sz) = None"
proof -
  let ?m = "gen8_max_pdp sz"
  note K = gen8_alloc_ok[OF assms(3,4,2,6,7), of ppgtt]
  obtain p1 where al: "gen8_ppgtt_alloc env ppgtt ?m = (None, p1)"
    using K(1) by (cases "gen8_ppgtt_alloc env ppgtt ?m") simp
  note K' = K[unfolded al snd_conv]
  have "fst (gen8_ppgtt_alloc env ppgtt ?m) = None" using al by simp
  note A = gen8_alloc_result[OF this, unfolded al snd_conv]
  have "fst (gen8_setup_loop env ?m p1 0) = None"
    by (rule gen8_setup_loop_ok[OF assms(8)]) (use K' assms(5,9) in simp_all)
  then obtain p2 where st: "gen8_setup_loop env ?m p1 0 = (None, p2)"
    by (cases "gen8_setup_loop env ?m p1 0") simp
  note S = gen8_setup_loop_fields[of env ?m p1 0, unfolded st snd_conv]
  let ?g = "(gen8_write_pdes h ?m p2)\<lparr>switch_mm := Some gen8_mm_switch,
          total := of_nat (num_pd_entries p2 * GEN8_PTES_PER_PAGE * PAGE_SIZE)\<rparr>"
  have pg: "gen8_pt_pages ?g = gen8_pt_pages p1" using S by (simp add: gen8_write_pdes_def)
  have m: "0 < ?m" "?m \<le> 4" using assms(1,2) by simp_all
  have n2: "num_pd_entries p2 = nat ?m * 512" using S A(4) gen8_total(1)[OF m] by simp
  have sp: "gen8_space ?g" using A(1,2,3) pg by (simp add: gen8_space_def)
  have rg: "gen8_range ?g 0 0 (nat ?m * 262144)" using A(2) pg by (simp add: gen8_range_def)
  have ln: "unat (of_nat (num_pd_entries p2 * GEN8_PTES_PER_PAGE * PAGE_SIZE) :: 64 word) =
            nat ?m * 262144 * PAGE_SIZE"
    unfolding n2 by (rule gen8_total(2)[OF m])
  have "gen8_ppgtt_clear_range h ?g 0
          (of_nat (num_pd_entries p2 * GEN8_PTES_PER_PAGE * PAGE_SIZE)) True \<noteq> None"
    using gen8_clear_range_any[OF sp rg ln] by simp
  then show ?thesis
    using al st
    by (auto simp add: gen8_ppgtt_init_def Let_def gen8_write_pdes_def split: option.splits)
qed

subsection \<open>The example environments\<close>

lemma example_max_pdp: "gen8_max_pdp 0x40000000 = 1"
  by (simp add: gen8_max_pdp_def)

lemma example_env6_ok: "fst (gen6_ppgtt_init i915_hdr example_env6 fresh_world) = None"
  by (rule gen6_init_ok[where start = "0x7FE00000"])
     (simp_all add: example_env6_def gen6_select_switch_mm_def)

lemma example_env8_ok:
  "fst (gen8_ppgtt_init i915_hdr example_env8 zeroed_ppgtt 0x40000000) = None"
  by (rule gen8_init_ok) (simp_all add: example_max_pdp example_env8_def zeroed_ppgtt_def)

section \<open>Claims about the initialisation\<close>

text \<open>
  C2. When \<open>gen6_ppgtt_init\<close> returns 0, the address space has 512 table pages of 1024
  entries, \<open>total\<close> is 512 * 1024 pages, and every entry of every table page holds the
  scratch-page encoding (the scratch page's address encoded as a valid entry by the
  encoder taken from the global GTT). When \<open>gen8_ppgtt_init\<close> returns 0, the address
  space has \<open>max_pdp\<close> directories (at most 4) of 512 table pages of 512 entries,
  \<open>total\<close> is as many pages, and every entry of every table page holds the gen8
  scratch-page encoding. In both the last write to the tables is the \<open>clear_range\<close>
  over \<open>[0, total)\<close>.
\<close>

theorem init_writes_scratch:
  assumes "fst (gen6_ppgtt_init h env w) = None"
    "fst (gen8_ppgtt_init h env8 ppgtt8 sz) = None"
  shows "pt_pages (hw (snd (gen6_ppgtt_init h env w))) =
           replicate GEN6_PPGTT_PD_ENTRIES (replicate I915_PPGTT_PT_ENTRIES
             (gen6_scratch_pte (hw (snd (gen6_ppgtt_init h env w)))))
       \<and> unat (total (hw (snd (gen6_ppgtt_init h env w)))) =
           GEN6_PPGTT_PD_ENTRIES * I915_PPGTT_PT_ENTRIES * PAGE_SIZE
       \<and> pte_encode (hw (snd (gen6_ppgtt_init h env w))) = gtt_base_pte_encode env
       \<and> scratch_addr (hw (snd (gen6_ppgtt_init h env w))) = scratch_addr (hw w)
       \<and> gen8_pt_pages (snd (gen8_ppgtt_init h env8 ppgtt8 sz)) =
           replicate (nat (gen8_max_pdp sz)) (replicate GEN8_PDES_PER_PAGE
             (replicate GEN8_PTES_PER_PAGE
                (gen8_scratch_pte h (snd (gen8_ppgtt_init h env8 ppgtt8 sz)))))
       \<and> nat (gen8_max_pdp sz) \<le> GEN8_LEGACY_PDPS
       \<and> scratch_addr (snd (gen8_ppgtt_init h env8 ppgtt8 sz)) = scratch_addr ppgtt8
       \<and> (0 \<le> gen8_max_pdp sz \<longrightarrow>
            unat (total (snd (gen8_ppgtt_init h env8 ppgtt8 sz))) =
            nat (gen8_max_pdp sz) * GEN8_PDES_PER_PAGE * GEN8_PTES_PER_PAGE * PAGE_SIZE)"
proof -
  note a = gen6_init_scratch[OF assms(1)]
  note b = gen8_init_scratch[OF assms(2)]
  have c: "0 \<le> gen8_max_pdp sz \<longrightarrow>
            unat (total (snd (gen8_ppgtt_init h env8 ppgtt8 sz))) =
            nat (gen8_max_pdp sz) * GEN8_PDES_PER_PAGE * GEN8_PTES_PER_PAGE * PAGE_SIZE"
    using b(4) by (rule impI)
  show ?thesis using a(1) a(2) a(3) a(4) b(1) b(2) b(3) c by (intro conjI)
qed

theorem init_writes_scratch_witness:
  "fst (gen6_ppgtt_init i915_hdr example_env6 fresh_world) = None
   \<and> fst (gen8_ppgtt_init i915_hdr example_env8 zeroed_ppgtt 0x40000000) = None
   \<and> pt_pages (hw (snd (gen6_ppgtt_init i915_hdr example_env6 fresh_world))) =
       replicate 512 (replicate 1024 0x1005)
   \<and> unat (total (hw (snd (gen6_ppgtt_init i915_hdr example_env6 fresh_world)))) = 0x80000000
   \<and> gen8_pt_pages (snd (gen8_ppgtt_init i915_hdr example_env8 zeroed_ppgtt 0x40000000)) =
       replicate 1 (replicate 512 (replicate 512 0x1083))
   \<and> unat (total (snd (gen8_ppgtt_init i915_hdr example_env8 zeroed_ppgtt 0x40000000))) =
       0x40000000"
proof -
  note t = init_writes_scratch[OF example_env6_ok example_env8_ok]
  note t1 = t[THEN conjunct1]
  note t2 = t[THEN conjunct2, THEN conjunct1]
  note t3 = t[THEN conjunct2, THEN conjunct2, THEN conjunct1]
  note t4 = t[THEN conjunct2, THEN conjunct2, THEN conjunct2, THEN conjunct1]
  note u = t[THEN conjunct2, THEN conjunct2, THEN conjunct2, THEN conjunct2]
  note t5 = u[THEN conjunct1]
  note t7 = u[THEN conjunct2, THEN conjunct2, THEN conjunct1]
  note t8 = u[THEN conjunct2, THEN conjunct2, THEN conjunct2]
  have s6: "gen6_scratch_pte (hw (snd (gen6_ppgtt_init i915_hdr example_env6 fresh_world))) =
            0x1005"
    unfolding gen6_scratch_pte_def t3 t4
    by (simp add: example_env6_def fresh_world_def zeroed_ppgtt_def snb_pte_encode_def
        i915_hdr_def)
  have s8: "gen8_scratch_pte i915_hdr
              (snd (gen8_ppgtt_init i915_hdr example_env8 zeroed_ppgtt 0x40000000)) = 0x1083"
    unfolding gen8_scratch_pte_def t7
    by (simp add: zeroed_ppgtt_def gen8_pte_encode_def i915_hdr_def)
  have a: "pt_pages (hw (snd (gen6_ppgtt_init i915_hdr example_env6 fresh_world))) =
       replicate 512 (replicate 1024 0x1005)"
    using t1 unfolding s6 .
  have b: "unat (total (hw (snd (gen6_ppgtt_init i915_hdr example_env6 fresh_world)))) =
       0x80000000"
    using t2 by simp
  have c: "gen8_pt_pages (snd (gen8_ppgtt_init i915_hdr example_env8 zeroed_ppgtt 0x40000000)) =
       replicate 1 (replicate 512 (replicate 512 0x1083))"
    using t5 unfolding s8 example_max_pdp by simp
  have d: "unat (total (snd (gen8_ppgtt_init i915_hdr example_env8 zeroed_ppgtt 0x40000000))) =
       0x40000000"
    using t8 unfolding example_max_pdp by simp
  show ?thesis using example_env6_ok example_env8_ok a b c d by (intro conjI)
qed

text \<open>
  C8. What the code does when mapping table page \<open>k\<close> fails after the directory node
  was reserved, all 512 table pages and both arrays were allocated and the pages below
  \<open>k\<close> were mapped: \<open>gen6_ppgtt_init\<close> returns \<open>-EIO\<close>; every mapping made is undone, all
  table pages and both arrays are freed; \<open>pci_unmap_page\<close> is also called for the
  \<open>512 - k\<close> entries that were never mapped; and the reservation of \<open>ppgtt->node\<close> in
  the global GTT is still held, because this path does not call \<open>drm_mm_remove_node\<close>.
\<close>

theorem gen6_init_map_failure_keeps_node:
  assumes "gen6_select_switch_mm env \<noteq> None" "drm_mm_initialized env"
    "drm_mm_insert_node env 0 = Inr start"
    "kcalloc_pt_pages env" "\<forall>j<GEN6_PPGTT_PD_ENTRIES. alloc_page env j \<noteq> None"
    "kcalloc_pt_dma_addr env"
    "k < GEN6_PPGTT_PD_ENTRIES" "\<forall>j<k. pci_map_page env j \<noteq> None" "pci_map_page env k = None"
    "dma_mapped w = []"
  shows "fst (gen6_ppgtt_init h env w) = Some EIO
       \<and> node (snd (gen6_ppgtt_init h env w)) = Some start
       \<and> pages_held (snd (gen6_ppgtt_init h env w)) = pages_held w
       \<and> dma_mapped (snd (gen6_ppgtt_init h env w)) = []
       \<and> stray_unmaps (snd (gen6_ppgtt_init h env w)) =
           stray_unmaps w + (GEN6_PPGTT_PD_ENTRIES - k)
       \<and> \<not> pt_pages_live (snd (gen6_ppgtt_init h env w))
       \<and> \<not> pt_dma_addr_live (snd (gen6_ppgtt_init h env w))"
proof -
  note a = gen6_init_map_failure[OF assms, of h]
  show ?thesis using a(1) a(2) a(3) a(4) a(5) a(6) a(7) by (intro conjI)
qed

theorem gen6_init_map_failure_keeps_node_witness:
  "gen6_select_switch_mm failing_env6 \<noteq> None
   \<and> drm_mm_initialized failing_env6
   \<and> drm_mm_insert_node failing_env6 0 = Inr 0x7FE00000
   \<and> pci_map_page failing_env6 3 = None
   \<and> node fresh_world = None
   \<and> fst (gen6_ppgtt_init i915_hdr failing_env6 fresh_world) = Some EIO
   \<and> node (snd (gen6_ppgtt_init i915_hdr failing_env6 fresh_world)) = Some 0x7FE00000
   \<and> pages_held (snd (gen6_ppgtt_init i915_hdr failing_env6 fresh_world)) = 0
   \<and> dma_mapped (snd (gen6_ppgtt_init i915_hdr failing_env6 fresh_world)) = []
   \<and> stray_unmaps (snd (gen6_ppgtt_init i915_hdr failing_env6 fresh_world)) = 509"
proof -
  have h1: "gen6_select_switch_mm failing_env6 \<noteq> None"
    by (simp add: failing_env6_def example_env6_def gen6_select_switch_mm_def)
  have h2: "drm_mm_initialized failing_env6" by (simp add: failing_env6_def example_env6_def)
  have h3: "drm_mm_insert_node failing_env6 0 = Inr 0x7FE00000"
    by (simp add: failing_env6_def example_env6_def)
  have h4: "kcalloc_pt_pages failing_env6" by (simp add: failing_env6_def example_env6_def)
  have h5: "\<forall>j<GEN6_PPGTT_PD_ENTRIES. alloc_page failing_env6 j \<noteq> None"
    by (simp add: failing_env6_def example_env6_def)
  have h6: "kcalloc_pt_dma_addr failing_env6" by (simp add: failing_env6_def example_env6_def)
  have h7: "(3 :: nat) < GEN6_PPGTT_PD_ENTRIES" by simp
  have h8: "\<forall>j<3. pci_map_page failing_env6 j \<noteq> None" by (simp add: failing_env6_def)
  have h9: "pci_map_page failing_env6 3 = None" by (simp add: failing_env6_def)
  have h10: "dma_mapped fresh_world = []" by (simp add: fresh_world_def)
  have n: "node fresh_world = None" by (simp add: fresh_world_def)
  note t = gen6_init_map_failure_keeps_node[OF h1 h2 h3 h4 h5 h6 h7 h8 h9 h10, of i915_hdr]
  note t1 = t[THEN conjunct1]
  note t2 = t[THEN conjunct2, THEN conjunct1]
  note t3 = t[THEN conjunct2, THEN conjunct2, THEN conjunct1]
  note t4 = t[THEN conjunct2, THEN conjunct2, THEN conjunct2, THEN conjunct1]
  note t5 = t[THEN conjunct2, THEN conjunct2, THEN conjunct2, THEN conjunct2, THEN conjunct1]
  have p: "pages_held (snd (gen6_ppgtt_init i915_hdr failing_env6 fresh_world)) = 0"
    using t3 by (simp add: fresh_world_def)
  have s: "stray_unmaps (snd (gen6_ppgtt_init i915_hdr failing_env6 fresh_world)) = 509"
    using t5 by (simp add: fresh_world_def)
  show ?thesis using h1 h2 h3 h9 n t1 t2 p t4 s by (intro conjI)
qed

section \<open>Properties of the atomic modeset helper\<close>

lemmas atomic_check_defs =
  drm_atomic_helper_check_def drm_atomic_helper_check_prepare_def mark_mode_changed_def
  update_connector_routing_def check_connectors_def mode_fixup_def copy_mode_def
  encoder_fixup_def crtc_fixup_def run_fixup_def check_plane_def check_crtc_def
  drm_atomic_helper_plane_changed_def set_planes_changed_def set_mode_changed_def
  with_crtc_state_def with_connector_state_def bind_err_def get_current_crtc_for_encoder_def
  steal_encoder_def drm_atomic_add_affected_connectors_def drm_atomic_connectors_for_crtc_def
  drm_atomic_get_connector_state_def drm_atomic_get_crtc_state_def
  drm_atomic_set_crtc_for_connector_def

subsection \<open>A synchronous commit on the example device\<close>

lemma example_prepare_planes:
  "drm_atomic_helper_prepare_planes example_driver example_device clone_transaction =
   (None, example_device\<lparr>hw_log := [PrepareFb 0 7]\<rparr>)"
  by (simp add: drm_atomic_helper_prepare_planes_def example_driver_def example_device_def
      clone_transaction_def log_hw_def)

lemma example_swap_state:
  "cur_connector_state (fst (drm_atomic_helper_swap_state example_device clone_transaction)) =
     [\<lparr>crtc = Some 0, best_encoder = None\<rparr>, \<lparr>crtc = Some 0, best_encoder = None\<rparr>]
   \<and> connector_states (snd (drm_atomic_helper_swap_state example_device clone_transaction)) =
     [Some \<lparr>crtc = None, best_encoder = None\<rparr>, Some \<lparr>crtc = None, best_encoder = None\<rparr>]"
  by (simp add: drm_atomic_helper_swap_state_def swap_connector_def swap_crtc_def
      swap_plane_def example_device_def clone_transaction_def)

lemma commit_sync_example:
  "fst (drm_atomic_helper_commit example_driver example_device clone_transaction False) = None
   \<and> snd (snd (drm_atomic_helper_commit example_driver example_device clone_transaction
                  False)) = None"
  by (simp add: drm_atomic_helper_commit_def example_prepare_planes Let_def split: prod.splits)

subsection \<open>The connectors of a crtc that needs a full modeset\<close>

lemma bind_err_Inr:
  "bind_err m f = Inr y \<Longrightarrow> \<exists>x. m = Inr x \<and> f x = Inr y"
  by (cases m) (simp_all add: bind_err_def)

lemma for_each_inv:
  assumes "for_each js body s = Inr s'" "I s"
    and "\<And>j s s'. j \<in> set js \<Longrightarrow> I s \<Longrightarrow> body j s = Inr s' \<Longrightarrow> I s'"
  shows "I s'"
  using assms
proof (induction js arbitrary: s)
  case Nil
  then show ?case by simp
next
  case (Cons j js)
  from Cons.prems(1) obtain s1 where b: "body j s = Inr s1" and r: "for_each js body s1 = Inr s'"
    using bind_err_Inr[of "body j s" "for_each js body" s'] by auto
  have i1: "I s1" using Cons.prems(3)[of j s s1] Cons.prems(2) b by simp
  have st: "\<And>j s s'. j \<in> set js \<Longrightarrow> I s \<Longrightarrow> body j s = Inr s' \<Longrightarrow> I s'"
    using Cons.prems(3) by (meson list.set_intros(2))
  from Cons.IH[OF r i1 st] show ?case .
qed

lemma tx_extends_refl: "tx_extends dev J s s"
  by (simp add: tx_extends_def)

lemma tx_extends_trans:
  assumes "tx_extends dev J s s1" "tx_extends dev K s1 s2"
  shows "tx_extends dev (J \<union> K) s s2"
  unfolding tx_extends_def
proof (intro conjI allI impI)
  show "crtc_states s2 = crtc_states s" using assms by (simp add: tx_extends_def)
  show "length (connector_states s2) = length (connector_states s)"
    using assms by (simp add: tx_extends_def)
next
  fix c assume c: "c < length (connector_states s)"
  then have c1: "c < length (connector_states s1)" using assms(1) by (simp add: tx_extends_def)
  from assms(1) c have a: "connector_states s1 ! c = connector_states s ! c \<or>
         (connector_states s ! c = None \<and>
          connector_states s1 ! c = Some (cur_connector_state dev ! c) \<and>
          (\<exists>j\<in>J. crtc (cur_connector_state dev ! c) = Some j))"
    by (simp add: tx_extends_def)
  from assms(2) c1 have b: "connector_states s2 ! c = connector_states s1 ! c \<or>
         (connector_states s1 ! c = None \<and>
          connector_states s2 ! c = Some (cur_connector_state dev ! c) \<and>
          (\<exists>j\<in>K. crtc (cur_connector_state dev ! c) = Some j))"
    by (simp add: tx_extends_def)
  from a b show "connector_states s2 ! c = connector_states s ! c \<or>
         (connector_states s ! c = None \<and>
          connector_states s2 ! c = Some (cur_connector_state dev ! c) \<and>
          (\<exists>j\<in>J \<union> K. crtc (cur_connector_state dev ! c) = Some j))"
    by auto
qed

lemma tx_extends_filled:
  assumes "tx_extends dev J s s'" "c < length (connector_states s)" "connector_states s ! c \<noteq> None"
  shows "c < length (connector_states s') \<and> connector_states s' ! c \<noteq> None"
  using assms by (auto simp add: tx_extends_def)

lemma tx_extends_pulled:
  assumes "tx_extends dev J s s'" "connectors_pulled dev s i"
  shows "connectors_pulled dev s' i"
  unfolding connectors_pulled_def
proof (intro allI impI)
  fix c assume "c < length (cur_connector_state dev)" "crtc (cur_connector_state dev ! c) = Some i"
  then have "c < length (connector_states s) \<and> connector_states s ! c \<noteq> None"
    using assms(2) by (simp add: connectors_pulled_def)
  then show "c < length (connector_states s') \<and> connector_states s' ! c \<noteq> None"
    using tx_extends_filled[OF assms(1)] by simp
qed

lemma tx_extends_count:
  assumes "tx_extends dev J s s'" "i \<notin> J"
  shows "drm_atomic_connectors_for_crtc s' i = drm_atomic_connectors_for_crtc s i"
proof -
  let ?P = "\<lambda>x. case x of None \<Rightarrow> False | Some conn_state \<Rightarrow> crtc conn_state = Some i"
  have "map ?P (connector_states s') = map ?P (connector_states s)"
  proof (rule nth_equalityI)
    show "length (map ?P (connector_states s')) = length (map ?P (connector_states s))"
      using assms(1) by (simp add: tx_extends_def)
  next
    fix c assume "c < length (map ?P (connector_states s'))"
    then have c: "c < length (connector_states s)" and c': "c < length (connector_states s')"
      using assms(1) by (simp_all add: tx_extends_def)
    from assms(1) c have "connector_states s' ! c = connector_states s ! c \<or>
         (connector_states s ! c = None \<and>
          connector_states s' ! c = Some (cur_connector_state dev ! c) \<and>
          (\<exists>j\<in>J. crtc (cur_connector_state dev ! c) = Some j))"
      by (simp add: tx_extends_def)
    then have "?P (connector_states s' ! c) = ?P (connector_states s ! c)"
      using assms(2) by auto
    then show "map ?P (connector_states s') ! c = map ?P (connector_states s) ! c"
      using c c' by simp
  qed
  then have "length (filter id (map ?P (connector_states s'))) =
             length (filter id (map ?P (connector_states s)))" by simp
  then show ?thesis
    by (simp add: drm_atomic_connectors_for_crtc_def filter_map comp_def)
qed

lemma get_connector_state_extends:
  assumes "drm_atomic_get_connector_state drv dev s c = Inr s'"
    "crtc (cur_connector_state dev ! c) = Some i"
  shows "tx_extends dev {i} s s' \<and> c < length (connector_states s') \<and>
         connector_states s' ! c \<noteq> None"
  using assms
  by (auto simp add: drm_atomic_get_connector_state_def tx_extends_def nth_list_update
      split: if_splits option.splits)

lemma add_affected_loop:
  assumes "for_each cl
             (\<lambda>c state. if crtc (cur_connector_state dev ! c) \<noteq> Some i then Inr state
                         else drm_atomic_get_connector_state drv dev state c) s = Inr s'"
  shows "tx_extends dev {i} s s' \<and>
         (\<forall>c\<in>set cl. crtc (cur_connector_state dev ! c) = Some i \<longrightarrow>
            c < length (connector_states s') \<and> connector_states s' ! c \<noteq> None)"
  using assms
proof (induction cl arbitrary: s)
  case Nil
  then show ?case by (simp add: tx_extends_refl)
next
  case (Cons c cl)
  let ?b = "\<lambda>c state. if crtc (cur_connector_state dev ! c) \<noteq> Some i then Inr state
                         else drm_atomic_get_connector_state drv dev state c"
  from Cons.prems obtain s1 where b: "?b c s = Inr s1" and r: "for_each cl ?b s1 = Inr s'"
    using bind_err_Inr[of "?b c s" "for_each cl ?b" s'] by auto
  note ih = Cons.IH[OF r]
  show ?case
  proof (cases "crtc (cur_connector_state dev ! c) = Some i")
    case False
    then have "s1 = s" using b by simp
    then show ?thesis using ih False by simp
  next
    case True
    then have g: "drm_atomic_get_connector_state drv dev s c = Inr s1" using b by simp
    note e = get_connector_state_extends[OF g True]
    have "tx_extends dev ({i} \<union> {i}) s s'"
      by (rule tx_extends_trans[of dev "{i}" s s1 "{i}" s']) (use e ih in simp_all)
    moreover have "c < length (connector_states s') \<and> connector_states s' ! c \<noteq> None"
      using tx_extends_filled[of dev "{i}" s1 s' c] e ih by simp
    ultimately show ?thesis using ih by simp
  qed
qed

lemma add_affected_connectors_result:
  assumes "drm_atomic_add_affected_connectors drv dev s i = Inr s'"
  shows "tx_extends dev {i} s s' \<and> connectors_pulled dev s' i"
proof -
  have "for_each [0..<length (cur_connector_state dev)]
             (\<lambda>c state. if crtc (cur_connector_state dev ! c) \<noteq> Some i then Inr state
                         else drm_atomic_get_connector_state drv dev state c) s = Inr s'"
    using assms by (auto simp add: drm_atomic_add_affected_connectors_def split: option.splits)
  from add_affected_loop[OF this] show ?thesis by (simp add: connectors_pulled_def)
qed

lemma check_connectors_result:
  assumes "check_connectors drv dev i s = Inr s'"
  shows "tx_extends dev {i} s s' \<and> crtc_consistent dev s' i"
proof (cases "crtc_states s ! i")
  case None
  then have "s' = s" using assms by (simp add: check_connectors_def)
  then show ?thesis using None by (simp add: tx_extends_refl crtc_consistent_def)
next
  case (Some cs)
  show ?thesis
  proof (cases "mode_changed cs")
    case False
    then have "s' = s" using assms Some by (simp add: check_connectors_def)
    then show ?thesis using Some False by (simp add: tx_extends_refl crtc_consistent_def)
  next
    case True
    from assms Some True obtain s1 where
      a: "drm_atomic_add_affected_connectors drv dev s i = Inr s1"
      and r: "(if enable cs \<noteq> (drm_atomic_connectors_for_crtc s1 i \<noteq> 0)
               then Inl EINVAL else Inr s1) = Inr s'"
      using bind_err_Inr[of "drm_atomic_add_affected_connectors drv dev s i" _ s']
      by (auto simp add: check_connectors_def)
    from r have s1: "s1 = s'" and en: "enable cs = (drm_atomic_connectors_for_crtc s' i \<noteq> 0)"
      by (auto split: if_splits)
    note e = add_affected_connectors_result[OF a, unfolded s1]
    have "crtc_states s' = crtc_states s" using e by (simp add: tx_extends_def)
    then show ?thesis using e en Some by (simp add: crtc_consistent_def)
  qed
qed

lemma tx_extends_consistent:
  assumes "tx_extends dev J s s'" "i \<notin> J" "crtc_consistent dev s i"
  shows "crtc_consistent dev s' i"
proof -
  have c: "crtc_states s' = crtc_states s" using assms(1) by (simp add: tx_extends_def)
  show ?thesis
    unfolding crtc_consistent_def c tx_extends_count[OF assms(1,2)]
    using assms(3) tx_extends_pulled[OF assms(1)] by (auto simp add: crtc_consistent_def)
qed

lemma check_connectors_loop:
  assumes "for_each il (check_connectors drv dev) s = Inr s'" "distinct il"
  shows "tx_extends dev (set il) s s' \<and> (\<forall>i\<in>set il. crtc_consistent dev s' i)"
  using assms
proof (induction il arbitrary: s)
  case Nil
  then show ?case by (simp add: tx_extends_refl)
next
  case (Cons i il)
  from Cons.prems(1) obtain s1 where b: "check_connectors drv dev i s = Inr s1"
    and r: "for_each il (check_connectors drv dev) s1 = Inr s'"
    using bind_err_Inr[of "check_connectors drv dev i s" _ s'] by auto
  have d: "distinct il" and ni: "i \<notin> set il" using Cons.prems(2) by simp_all
  note ih = Cons.IH[OF r d]
  note c = check_connectors_result[OF b]
  have "tx_extends dev ({i} \<union> set il) s s'"
    by (rule tx_extends_trans[of dev "{i}" s s1 "set il" s']) (use c ih in simp_all)
  moreover have "crtc_consistent dev s' i"
    using tx_extends_consistent[of dev "set il" s1 s' i] ih ni c by simp
  ultimately show ?case using ih by simp
qed

lemma same_flags_refl: "same_flags s s"
  by (simp add: same_flags_def)

lemma same_flags_trans: "same_flags s s1 \<Longrightarrow> same_flags s1 s2 \<Longrightarrow> same_flags s s2"
  by (simp add: same_flags_def)

lemma run_fixup_flags:
  assumes "run_fixup hook idx s = Inr s'"
  shows "same_flags s s'"
  using assms
  by (auto simp add: run_fixup_def same_flags_def crtc_flags_def map_update
      split: if_splits option.splits prod.splits intro!: nth_equalityI
      simp: nth_list_update)

lemma encoder_fixup_flags:
  assumes "encoder_fixup drv i s = Inr s'"
  shows "same_flags s s'"
proof (cases "connector_states s ! i")
  case None
  then show ?thesis using assms by (simp add: encoder_fixup_def same_flags_refl)
next
  case (Some conn_state)
  show ?thesis
  proof (cases "crtc conn_state")
    case None
    then show ?thesis using assms Some by (simp add: encoder_fixup_def same_flags_refl)
  next
    case c: (Some idx)
    show ?thesis
    proof (cases "best_encoder conn_state")
      case None
      then show ?thesis using assms Some c by (simp add: encoder_fixup_def same_flags_refl)
    next
      case e: (Some encoder)
      let ?m = "case (if encoder_bridge drv encoder then bridge_mode_fixup drv encoder else None) of
                    None \<Rightarrow> Inr s
                  | Some hook \<Rightarrow> run_fixup hook idx s"
      from assms Some c e obtain s1 where m: "?m = Inr s1"
        and r: "run_fixup (encoder_mode_fixup drv encoder) idx s1 = Inr s'"
        using bind_err_Inr[of ?m "run_fixup (encoder_mode_fixup drv encoder) idx" s']
        by (auto simp add: encoder_fixup_def)
      have "same_flags s s1"
        using m by (auto split: option.splits if_splits simp add: same_flags_refl run_fixup_flags)
      then show ?thesis using run_fixup_flags[OF r] by (rule same_flags_trans)
    qed
  qed
qed

lemma crtc_fixup_flags:
  assumes "crtc_fixup drv i s = Inr s'"
  shows "same_flags s s'"
  using assms
  by (auto simp add: crtc_fixup_def same_flags_refl run_fixup_flags
      split: option.splits if_splits)

lemma copy_mode_flags:
  "same_flags s (s\<lparr>crtc_states := map copy_mode (crtc_states s)\<rparr>)"
  by (auto simp add: same_flags_def crtc_flags_def copy_mode_def split: option.splits)

lemma mode_fixup_flags:
  assumes "mode_fixup drv s = Inr s'"
  shows "same_flags s s'"
proof -
  let ?s0 = "s\<lparr>crtc_states := map copy_mode (crtc_states s)\<rparr>"
  from assms obtain s1 where
    a: "for_each [0..<length (connector_states ?s0)] (encoder_fixup drv) ?s0 = Inr s1"
    and b: "for_each [0..<length (crtc_states s1)] (crtc_fixup drv) s1 = Inr s'"
    using bind_err_Inr[of "for_each [0..<length (connector_states ?s0)] (encoder_fixup drv) ?s0"
        _ s']
    by (auto simp add: mode_fixup_def bind_err_def)
  have s1: "same_flags s s1"
  proof (rule for_each_inv[where I = "same_flags s", OF a])
    show "same_flags s ?s0" by (rule copy_mode_flags)
  next
    fix j t t' assume "same_flags s t" "encoder_fixup drv j t = Inr t'"
    then show "same_flags s t'" using encoder_fixup_flags same_flags_trans by blast
  qed
  show ?thesis
  proof (rule for_each_inv[where I = "same_flags s", OF b])
    show "same_flags s s1" by (rule s1)
  next
    fix j t t' assume "same_flags s t" "crtc_fixup drv j t = Inr t'"
    then show "same_flags s t'" using crtc_fixup_flags same_flags_trans by blast
  qed
qed

lemma same_flags_consistent:
  assumes "same_flags s s'" "crtc_consistent dev s i" "i < length (crtc_states s')"
  shows "crtc_consistent dev s' i"
proof -
  have cs: "connector_states s' = connector_states s" and f: "crtc_flags s' = crtc_flags s"
    using assms(1) by (simp_all add: same_flags_def)
  have l: "length (crtc_states s') = length (crtc_states s)"
    using f by (metis crtc_flags_def length_map)
  have n: "crtc_flags s' ! i = crtc_flags s ! i" using f by simp
  have cnt: "drm_atomic_connectors_for_crtc s' i = drm_atomic_connectors_for_crtc s i"
    by (simp add: drm_atomic_connectors_for_crtc_def cs)
  have pl: "connectors_pulled dev s' i = connectors_pulled dev s i"
    by (simp add: connectors_pulled_def cs)
  show ?thesis
    unfolding crtc_consistent_def cnt pl
  proof (intro allI impI)
    fix x assume x: "crtc_states s' ! i = Some x \<and> mode_changed x"
    then obtain y where y: "crtc_states s ! i = Some y" "enable y = enable x"
      "mode_changed y = mode_changed x"
      using n assms(3) l by (cases "crtc_states s ! i") (auto simp add: crtc_flags_def)
    then show "connectors_pulled dev s i \<and> enable x = (drm_atomic_connectors_for_crtc s i \<noteq> 0)"
      using assms(2) x by (auto simp add: crtc_consistent_def)
  qed
qed

lemma check_prepare_consistent:
  assumes "drm_atomic_helper_check_prepare drv dev state = Inr state'"
    "i < length (crtc_states state')"
  shows "crtc_consistent dev state' i"
proof -
  from assms(1) obtain s1 where
    r1: "bind_err (for_each [0..<length (connector_states s1)]
                 (\<lambda>i state. update_connector_routing drv dev state i) s1) (\<lambda>state.
         bind_err (for_each [0..<length (crtc_states state)] (check_connectors drv dev) state)
           (mode_fixup drv)) = Inr state'"
    unfolding drm_atomic_helper_check_prepare_def by (blast dest: bind_err_Inr)
  from r1 obtain s2 where
    r2: "bind_err (for_each [0..<length (crtc_states s2)] (check_connectors drv dev) s2)
           (mode_fixup drv) = Inr state'"
    by (blast dest: bind_err_Inr)
  from r2 obtain s3 where
    l3: "for_each [0..<length (crtc_states s2)] (check_connectors drv dev) s2 = Inr s3"
    and mf: "mode_fixup drv s3 = Inr state'"
    by (blast dest: bind_err_Inr)
  note c = check_connectors_loop[OF l3 distinct_upt]
  note f = mode_fixup_flags[OF mf]
  have "length (crtc_states state') = length (crtc_states s3)"
    using f by (metis same_flags_def crtc_flags_def length_map)
  moreover have "crtc_states s3 = crtc_states s2" using c by (simp add: tx_extends_def)
  ultimately have "i \<in> set [0..<length (crtc_states s2)]" using assms(2) by simp
  then have "crtc_consistent dev s3 i" using c by blast
  with f show ?thesis using assms(2) by (rule same_flags_consistent)
qed

lemma check_connectors_mismatch:
  assumes "crtc_states s ! i = Some cs" "mode_changed cs"
    "drm_atomic_add_affected_connectors drv dev s i = Inr s1"
    "enable cs \<noteq> (drm_atomic_connectors_for_crtc s1 i \<noteq> 0)"
  shows "check_connectors drv dev i s = Inl EINVAL"
  using assms by (simp add: check_connectors_def bind_err_def)

lemma example_mode_check_prepare:
  "drm_atomic_helper_check_prepare example_driver lit_device mode_transaction =
     Inr \<lparr>crtc_states = [Some \<lparr>mode = 2, adjusted_mode = 2, enable = True, mode_changed = True,
                               planes_changed = False, last_vblank_count = 0\<rparr>],
          connector_states = [Some \<lparr>crtc = Some 0, best_encoder = Some 0\<rparr>, None],
          plane_states = [None]\<rparr>"
  by (simp add: atomic_check_defs example_driver_def lit_device_def example_device_def
      mode_transaction_def)

subsection \<open>Which crtcs the check marks for a full modeset\<close>

lemma crtc_kept_refl: "crtc_kept s s"
  by (simp add: crtc_kept_def)

lemma crtc_kept_trans: "crtc_kept s s1 \<Longrightarrow> crtc_kept s1 s2 \<Longrightarrow> crtc_kept s s2"
  unfolding crtc_kept_def by (metis (no_types, lifting))

lemma crtc_kept_eq: "crtc_states s' = crtc_states s \<Longrightarrow> crtc_kept s s'"
  by (simp add: crtc_kept_def)

lemma set_mode_changed_kept:
  "set_mode_changed idx s = Inr s' \<Longrightarrow> crtc_kept s s'"
  by (auto simp add: set_mode_changed_def with_crtc_state_def crtc_kept_def nth_list_update
      split: if_splits option.splits)

lemma with_connector_state_kept:
  "with_connector_state idx f s = Inr s' \<Longrightarrow> crtc_kept s s'"
  by (auto simp add: with_connector_state_def crtc_kept_def split: if_splits option.splits)

lemma get_crtc_state_kept:
  "drm_atomic_get_crtc_state drv dev s idx = Inr s' \<Longrightarrow> crtc_kept s s'"
  by (auto simp add: drm_atomic_get_crtc_state_def crtc_kept_def nth_list_update
      split: if_splits option.splits)

lemma get_connector_state_kept:
  "drm_atomic_get_connector_state drv dev s idx = Inr s' \<Longrightarrow> crtc_kept s s'"
  by (auto simp add: drm_atomic_get_connector_state_def crtc_kept_def
      split: if_splits option.splits)

lemma bind_kept:
  assumes "bind_err m g = Inr s'" "\<And>t. m = Inr t \<Longrightarrow> crtc_kept s t"
    "\<And>t. g t = Inr s' \<Longrightarrow> crtc_kept t s'"
  shows "crtc_kept s s'"
proof -
  from assms(1) obtain t where "m = Inr t" "g t = Inr s'" by (blast dest: bind_err_Inr)
  then show ?thesis using assms(2,3) crtc_kept_trans by blast
qed

lemma for_each_kept:
  assumes "for_each js body s = Inr s'"
    "\<And>j t t'. body j t = Inr t' \<Longrightarrow> crtc_kept t t'"
  shows "crtc_kept s s'"
proof (rule for_each_inv[where I = "crtc_kept s", OF assms(1)])
  show "crtc_kept s s" by (rule crtc_kept_refl)
next
  fix j t t' assume "crtc_kept s t" "body j t = Inr t'"
  then show "crtc_kept s t'" using assms(2) crtc_kept_trans by blast
qed

lemma set_crtc_for_connector_kept:
  assumes "drm_atomic_set_crtc_for_connector drv dev s c new_crtc = Inr s'"
  shows "crtc_kept s s'"
  using assms unfolding drm_atomic_set_crtc_for_connector_def
proof (rule bind_kept)
  fix t assume "(case new_crtc of None \<Rightarrow> Inr s
                 | Some idx \<Rightarrow> drm_atomic_get_crtc_state drv dev s idx) = Inr t"
  then show "crtc_kept s t"
    by (auto split: option.splits simp add: crtc_kept_refl get_crtc_state_kept)
next
  fix t assume "with_connector_state c (\<lambda>s. s\<lparr>crtc := new_crtc\<rparr>) t = Inr s'"
  then show "crtc_kept t s'" by (rule with_connector_state_kept)
qed

lemma steal_encoder_kept:
  assumes "steal_encoder drv dev s encoder encoder_crtc0 = Inr s'"
  shows "crtc_kept s s'"
  using assms unfolding steal_encoder_def
proof (rule bind_kept)
  fix t assume "drm_atomic_get_crtc_state drv dev s encoder_crtc0 = Inr t"
  then show "crtc_kept s t" by (rule get_crtc_state_kept)
next
  fix t
  assume "bind_err (set_mode_changed encoder_crtc0 t)
       (for_each [0..<length (cur_connector_state dev)]
          (\<lambda>c state.
              if best_encoder (cur_connector_state dev ! c) \<noteq> Some encoder then Inr state
              else bind_err (drm_atomic_get_connector_state drv dev state c)
                     (\<lambda>state. bind_err (drm_atomic_set_crtc_for_connector drv dev state c None)
                        (with_connector_state c (\<lambda>s. s\<lparr>best_encoder := None\<rparr>))))) = Inr s'"
  then show "crtc_kept t s'"
  proof (rule bind_kept)
    fix u assume "set_mode_changed encoder_crtc0 t = Inr u"
    then show "crtc_kept t u" by (rule set_mode_changed_kept)
  next
    fix u
    assume "for_each [0..<length (cur_connector_state dev)]
          (\<lambda>c state.
              if best_encoder (cur_connector_state dev ! c) \<noteq> Some encoder then Inr state
              else bind_err (drm_atomic_get_connector_state drv dev state c)
                     (\<lambda>state. bind_err (drm_atomic_set_crtc_for_connector drv dev state c None)
                        (with_connector_state c (\<lambda>s. s\<lparr>best_encoder := None\<rparr>)))) u = Inr s'"
    then show "crtc_kept u s'"
    proof (rule for_each_kept)
      fix c v v'
      assume b: "(if best_encoder (cur_connector_state dev ! c) \<noteq> Some encoder then Inr v
              else bind_err (drm_atomic_get_connector_state drv dev v c)
                     (\<lambda>state. bind_err (drm_atomic_set_crtc_for_connector drv dev state c None)
                        (with_connector_state c (\<lambda>s. s\<lparr>best_encoder := None\<rparr>)))) = Inr v'"
      show "crtc_kept v v'"
      proof (cases "best_encoder (cur_connector_state dev ! c) \<noteq> Some encoder")
        case True
        then show ?thesis using b by (simp add: crtc_kept_refl)
      next
        case False
        then have "bind_err (drm_atomic_get_connector_state drv dev v c)
                     (\<lambda>state. bind_err (drm_atomic_set_crtc_for_connector drv dev state c None)
                        (with_connector_state c (\<lambda>s. s\<lparr>best_encoder := None\<rparr>))) = Inr v'"
          using b by simp
        then show ?thesis
        proof (rule bind_kept)
          fix w assume "drm_atomic_get_connector_state drv dev v c = Inr w"
          then show "crtc_kept v w" by (rule get_connector_state_kept)
        next
          fix w
          assume "bind_err (drm_atomic_set_crtc_for_connector drv dev w c None)
                    (with_connector_state c (\<lambda>s. s\<lparr>best_encoder := None\<rparr>)) = Inr v'"
          then show "crtc_kept w v'"
            by (rule bind_kept) (auto intro: set_crtc_for_connector_kept with_connector_state_kept)
        qed
      qed
    qed
  qed
qed

lemma routing_tail_kept:
  assumes "(case crtc k of
                   None \<Rightarrow> with_connector_state c (\<lambda>s. s\<lparr>best_encoder := None\<rparr>) t
                 | Some target \<Rightarrow>
                     (case connector_best_encoder drv c of
                        None \<Rightarrow> Inl EINVAL
                      | Some new_encoder \<Rightarrow>
                          if Some new_encoder = best_encoder k then Inr t
                          else
                            bind_err
                              (case get_current_crtc_for_encoder dev new_encoder of
                                 None \<Rightarrow> Inr t
                               | Some encoder_crtc0 \<Rightarrow>
                                   steal_encoder drv dev t new_encoder encoder_crtc0)
                              (\<lambda>state.
                                 bind_err
                                   (with_connector_state c
                                      (\<lambda>s. s\<lparr>best_encoder := Some new_encoder\<rparr>) state)
                                   (\<lambda>state.
                                      case connector_states state ! c of
                                        None \<Rightarrow> Inl FAULT
                                      | Some s \<Rightarrow>
                                          (case crtc s of
                                             None \<Rightarrow> Inl FAULT
                                           | Some idx \<Rightarrow> set_mode_changed idx state))))) = Inr s'"
  shows "crtc_kept t s'"
proof (cases "crtc k")
  case None
  then show ?thesis using assms by (simp add: with_connector_state_kept)
next
  case (Some target)
  show ?thesis
  proof (cases "connector_best_encoder drv c")
    case None
    then show ?thesis using assms Some by simp
  next
    case ne: (Some new_encoder)
    show ?thesis
    proof (cases "Some new_encoder = best_encoder k")
      case True
      then have "best_encoder k = Some new_encoder" by simp
      then show ?thesis using assms Some ne by (simp add: crtc_kept_refl)
    next
      case False
      let ?C = "case get_current_crtc_for_encoder dev new_encoder of
                                 None \<Rightarrow> Inr t
                               | Some encoder_crtc0 \<Rightarrow>
                                   steal_encoder drv dev t new_encoder encoder_crtc0"
      from assms Some ne False obtain u where u: "?C = Inr u" and
        r: "bind_err (with_connector_state c (\<lambda>s. s\<lparr>best_encoder := Some new_encoder\<rparr>) u)
              (\<lambda>state. case connector_states state ! c of
                                        None \<Rightarrow> Inl FAULT
                                      | Some s \<Rightarrow>
                                          (case crtc s of
                                             None \<Rightarrow> Inl FAULT
                                           | Some idx \<Rightarrow> set_mode_changed idx state)) = Inr s'"
        using bind_err_Inr[of ?C _ s'] by auto
      from r obtain v where
        v: "with_connector_state c (\<lambda>s. s\<lparr>best_encoder := Some new_encoder\<rparr>) u = Inr v"
        and w: "(case connector_states v ! c of
                                        None \<Rightarrow> Inl FAULT
                                      | Some s \<Rightarrow>
                                          (case crtc s of
                                             None \<Rightarrow> Inl FAULT
                                           | Some idx \<Rightarrow> set_mode_changed idx v)) = Inr s'"
        by (blast dest: bind_err_Inr)
      have 1: "crtc_kept t u"
        using u by (auto split: option.splits simp add: crtc_kept_refl steal_encoder_kept)
      have 2: "crtc_kept u v" using v by (rule with_connector_state_kept)
      have 3: "crtc_kept v s'"
        using w by (auto split: option.splits simp add: set_mode_changed_kept)
      show ?thesis using 1 2 3 crtc_kept_trans by blast
    qed
  qed
qed

lemma routing_head_kept:
  assumes "(if crtc live \<noteq> crtc k then
                 bind_err
                   (case crtc live of
                      None \<Rightarrow> Inr s
                    | Some idx \<Rightarrow> set_mode_changed idx s)
                   (\<lambda>state. case crtc k of
                      None \<Rightarrow> Inr state
                    | Some idx \<Rightarrow> set_mode_changed idx state)
               else Inr s) = Inr t"
  shows "crtc_kept s t"
proof (cases "crtc live \<noteq> crtc k")
  case False
  then show ?thesis using assms by (simp add: crtc_kept_refl)
next
  case True
  then obtain t0 where
    a1: "(case crtc live of None \<Rightarrow> Inr s | Some idx \<Rightarrow> set_mode_changed idx s) = Inr t0"
    and a2: "(case crtc k of None \<Rightarrow> Inr t0 | Some idx \<Rightarrow> set_mode_changed idx t0) = Inr t"
    using assms bind_err_Inr[of "case crtc live of None \<Rightarrow> Inr s
        | Some idx \<Rightarrow> set_mode_changed idx s" _ t] by auto
  have "crtc_kept s t0"
    using a1 by (auto split: option.splits simp add: crtc_kept_refl set_mode_changed_kept)
  moreover have "crtc_kept t0 t"
    using a2 by (auto split: option.splits simp add: crtc_kept_refl set_mode_changed_kept)
  ultimately show ?thesis by (rule crtc_kept_trans)
qed

lemma routing_head_marks:
  assumes "(if crtc live \<noteq> crtc k then
                 bind_err
                   (case crtc live of
                      None \<Rightarrow> Inr s
                    | Some idx \<Rightarrow> set_mode_changed idx s)
                   (\<lambda>state. case crtc k of
                      None \<Rightarrow> Inr state
                    | Some idx \<Rightarrow> set_mode_changed idx state)
               else Inr s) = Inr t"
    "crtc k \<noteq> crtc live" "crtc k = Some i \<or> crtc live = Some i"
  shows "\<exists>y. crtc_states t ! i = Some y \<and> mode_changed y \<and> i < length (crtc_states t)"
proof -
  obtain t0 where
    a1: "(case crtc live of None \<Rightarrow> Inr s | Some idx \<Rightarrow> set_mode_changed idx s) = Inr t0"
    and a2: "(case crtc k of None \<Rightarrow> Inr t0 | Some idx \<Rightarrow> set_mode_changed idx t0) = Inr t"
    using assms(1,2) bind_err_Inr[of "case crtc live of None \<Rightarrow> Inr s
        | Some idx \<Rightarrow> set_mode_changed idx s" _ t] by auto
  show ?thesis
  proof (cases "crtc k = Some i")
    case True
    then have "set_mode_changed i t0 = Inr t" using a2 by simp
    then show ?thesis
      by (auto simp add: set_mode_changed_def with_crtc_state_def split: if_splits option.splits)
  next
    case False
    then have l: "crtc live = Some i" using assms(3) by simp
    then have "set_mode_changed i s = Inr t0" using a1 by simp
    then have "\<exists>y. crtc_states t0 ! i = Some y \<and> mode_changed y \<and> i < length (crtc_states t0)"
      by (auto simp add: set_mode_changed_def with_crtc_state_def split: if_splits option.splits)
    moreover have "crtc_kept t0 t"
      using a2 by (auto split: option.splits simp add: crtc_kept_refl set_mode_changed_kept)
    ultimately show ?thesis unfolding crtc_kept_def by metis
  qed
qed

lemma update_connector_routing_steps:
  assumes "update_connector_routing drv dev s c = Inr s'" "connector_states s ! c = Some k"
  obtains t where
    "(if crtc (cur_connector_state dev ! c) \<noteq> crtc k then
                 bind_err
                   (case crtc (cur_connector_state dev ! c) of
                      None \<Rightarrow> Inr s
                    | Some idx \<Rightarrow> set_mode_changed idx s)
                   (\<lambda>state. case crtc k of
                      None \<Rightarrow> Inr state
                    | Some idx \<Rightarrow> set_mode_changed idx state)
               else Inr s) = Inr t"
    "crtc_kept t s'"
proof -
  have "c < length (cur_connector_state dev)"
    using assms by (auto simp add: update_connector_routing_def split: if_splits)
  then obtain t where
    a: "(if crtc (cur_connector_state dev ! c) \<noteq> crtc k then
                 bind_err
                   (case crtc (cur_connector_state dev ! c) of
                      None \<Rightarrow> Inr s
                    | Some idx \<Rightarrow> set_mode_changed idx s)
                   (\<lambda>state. case crtc k of
                      None \<Rightarrow> Inr state
                    | Some idx \<Rightarrow> set_mode_changed idx state)
               else Inr s) = Inr t"
    and b: "(case crtc k of
                   None \<Rightarrow> with_connector_state c (\<lambda>s. s\<lparr>best_encoder := None\<rparr>) t
                 | Some target \<Rightarrow>
                     (case connector_best_encoder drv c of
                        None \<Rightarrow> Inl EINVAL
                      | Some new_encoder \<Rightarrow>
                          if Some new_encoder = best_encoder k then Inr t
                          else
                            bind_err
                              (case get_current_crtc_for_encoder dev new_encoder of
                                 None \<Rightarrow> Inr t
                               | Some encoder_crtc0 \<Rightarrow>
                                   steal_encoder drv dev t new_encoder encoder_crtc0)
                              (\<lambda>state.
                                 bind_err
                                   (with_connector_state c
                                      (\<lambda>s. s\<lparr>best_encoder := Some new_encoder\<rparr>) state)
                                   (\<lambda>state.
                                      case connector_states state ! c of
                                        None \<Rightarrow> Inl FAULT
                                      | Some s \<Rightarrow>
                                          (case crtc s of
                                             None \<Rightarrow> Inl FAULT
                                           | Some idx \<Rightarrow> set_mode_changed idx state))))) = Inr s'"
    using assms unfolding update_connector_routing_def
    by (simp only: option.case if_not_P not_not if_True) (blast dest: bind_err_Inr)
  from that[OF a routing_tail_kept[OF b]] show ?thesis .
qed

lemma update_connector_routing_kept:
  assumes "update_connector_routing drv dev s c = Inr s'"
  shows "crtc_kept s s'"
proof (cases "connector_states s ! c")
  case None
  then show ?thesis using assms by (simp add: update_connector_routing_def crtc_kept_refl)
next
  case (Some k)
  from update_connector_routing_steps[OF assms Some] obtain t where
    a: "(if crtc (cur_connector_state dev ! c) \<noteq> crtc k then
                 bind_err
                   (case crtc (cur_connector_state dev ! c) of
                      None \<Rightarrow> Inr s
                    | Some idx \<Rightarrow> set_mode_changed idx s)
                   (\<lambda>state. case crtc k of
                      None \<Rightarrow> Inr state
                    | Some idx \<Rightarrow> set_mode_changed idx state)
               else Inr s) = Inr t"
    and b: "crtc_kept t s'" by blast
  from routing_head_kept[OF a] b show ?thesis by (rule crtc_kept_trans)
qed

lemma mark_mode_changed_kept:
  "mark_mode_changed dev j s = Inr s' \<Longrightarrow> crtc_kept s s'"
  by (auto simp add: mark_mode_changed_def crtc_kept_refl split: option.splits if_splits
      dest!: set_mode_changed_kept)

lemma set_mode_changed_sets:
  "set_mode_changed j s = Inr s' \<Longrightarrow> \<exists>y. crtc_states s' ! j = Some y \<and> mode_changed y"
  by (auto simp add: set_mode_changed_def with_crtc_state_def split: if_splits option.splits)

lemma crtc_kept_marked:
  assumes "crtc_kept s s'" "j < length (crtc_states s)" "crtc_states s ! j = Some y"
    "mode_changed y"
  shows "\<exists>z. crtc_states s' ! j = Some z \<and> mode_changed z"
  using assms unfolding crtc_kept_def by blast

lemma mark_mode_changed_sets:
  assumes "mark_mode_changed dev j s = Inr s'" "crtc_states s ! j = Some x"
    "mode (cur_crtc_state dev ! j) \<noteq> mode x \<or> enable (cur_crtc_state dev ! j) \<noteq> enable x"
  shows "\<exists>y. crtc_states s' ! j = Some y \<and> mode_changed y"
proof -
  have "set_mode_changed j s = Inr s'"
    using assms by (auto simp add: mark_mode_changed_def split: if_splits)
  then show ?thesis by (rule set_mode_changed_sets)
qed

lemma mark_loop_sets:
  assumes "for_each jl (mark_mode_changed dev) s = Inr s'" "j \<in> set jl"
    "j < length (crtc_states s)" "crtc_states s ! j = Some x"
    "mode (cur_crtc_state dev ! j) \<noteq> mode x \<or> enable (cur_crtc_state dev ! j) \<noteq> enable x"
  shows "\<exists>y. crtc_states s' ! j = Some y \<and> mode_changed y"
  using assms
proof (induction jl arbitrary: s x)
  case Nil
  then show ?case by simp
next
  case (Cons k jl)
  from Cons.prems(1) obtain s1 where b: "mark_mode_changed dev k s = Inr s1"
    and r: "for_each jl (mark_mode_changed dev) s1 = Inr s'"
    using bind_err_Inr[of "mark_mode_changed dev k s" _ s'] by auto
  note k1 = mark_mode_changed_kept[OF b]
  have l1: "j < length (crtc_states s1)" using k1 Cons.prems(3) by (simp add: crtc_kept_def)
  show ?case
  proof (cases "j = k")
    case True
    from mark_mode_changed_sets[OF b[folded True] Cons.prems(4,5)]
    obtain y where y: "crtc_states s1 ! j = Some y" "mode_changed y" by blast
    have "crtc_kept s1 s'" using r by (rule for_each_kept) (rule mark_mode_changed_kept)
    then show ?thesis using l1 y by (rule crtc_kept_marked)
  next
    case False
    then have jm: "j \<in> set jl" using Cons.prems(2) by simp
    obtain x1 where x1: "crtc_states s1 ! j = Some x1" "mode x1 = mode x" "enable x1 = enable x"
      using k1 Cons.prems(3,4) unfolding crtc_kept_def by blast
    have d: "mode (cur_crtc_state dev ! j) \<noteq> mode x1 \<or>
             enable (cur_crtc_state dev ! j) \<noteq> enable x1"
      using Cons.prems(5) x1 by simp
    from Cons.IH[OF r jm l1 x1(1) d] show ?thesis .
  qed
qed

lemma same_flags_marked:
  assumes "same_flags s s'" "j < length (crtc_states s)" "crtc_states s ! j = Some y"
    "mode_changed y"
  shows "\<exists>z. crtc_states s' ! j = Some z \<and> mode_changed z"
proof -
  have f: "crtc_flags s' = crtc_flags s" using assms(1) by (simp add: same_flags_def)
  then have l: "length (crtc_states s') = length (crtc_states s)"
    by (metis crtc_flags_def length_map)
  have "crtc_flags s' ! j = crtc_flags s ! j" using f by simp
  then show ?thesis
    using assms(2,3,4) l by (cases "crtc_states s' ! j") (auto simp add: crtc_flags_def)
qed

lemma check_connectors_kept:
  "check_connectors drv dev i s = Inr s' \<Longrightarrow> crtc_kept s s'"
  using check_connectors_result[of drv dev i s s'] by (simp add: tx_extends_def crtc_kept_eq)

lemma check_prepare_marks:
  assumes "drm_atomic_helper_check_prepare drv dev state = Inr state'"
    "j < length (crtc_states state)" "crtc_states state ! j = Some x"
    "mode (cur_crtc_state dev ! j) \<noteq> mode x \<or> enable (cur_crtc_state dev ! j) \<noteq> enable x"
  shows "\<exists>y. crtc_states state' ! j = Some y \<and> mode_changed y"
proof -
  from assms(1) obtain s1 where
    l1: "for_each [0..<length (crtc_states state)] (mark_mode_changed dev) state = Inr s1"
    and r1: "bind_err (for_each [0..<length (connector_states s1)]
                 (\<lambda>i state. update_connector_routing drv dev state i) s1) (\<lambda>state.
         bind_err (for_each [0..<length (crtc_states state)] (check_connectors drv dev) state)
           (mode_fixup drv)) = Inr state'"
    unfolding drm_atomic_helper_check_prepare_def by (blast dest: bind_err_Inr)
  from r1 obtain s2 where
    l2: "for_each [0..<length (connector_states s1)]
                 (\<lambda>i state. update_connector_routing drv dev state i) s1 = Inr s2"
    and r2: "bind_err (for_each [0..<length (crtc_states s2)] (check_connectors drv dev) s2)
           (mode_fixup drv) = Inr state'"
    by (blast dest: bind_err_Inr)
  from r2 obtain s3 where
    l3: "for_each [0..<length (crtc_states s2)] (check_connectors drv dev) s2 = Inr s3"
    and mf: "mode_fixup drv s3 = Inr state'"
    by (blast dest: bind_err_Inr)
  have jm: "j \<in> set [0..<length (crtc_states state)]" using assms(2) by simp
  from mark_loop_sets[OF l1 jm assms(2,3,4)]
  obtain y1 where y1: "crtc_states s1 ! j = Some y1" "mode_changed y1" by blast
  have k1: "crtc_kept state s1" using l1 by (rule for_each_kept) (rule mark_mode_changed_kept)
  have k2: "crtc_kept s1 s2"
    using l2 by (rule for_each_kept) (rule update_connector_routing_kept)
  have k3: "crtc_kept s2 s3" using l3 by (rule for_each_kept) (rule check_connectors_kept)
  have j1: "j < length (crtc_states s1)" using k1 assms(2) by (simp add: crtc_kept_def)
  have j2: "j < length (crtc_states s2)" using k2 j1 by (simp add: crtc_kept_def)
  have j3: "j < length (crtc_states s3)" using k3 j2 by (simp add: crtc_kept_def)
  from crtc_kept_marked[OF k2 j1 y1] obtain y2 where
    y2: "crtc_states s2 ! j = Some y2" "mode_changed y2" by blast
  from crtc_kept_marked[OF k3 j2 y2] obtain y3 where
    y3: "crtc_states s3 ! j = Some y3" "mode_changed y3" by blast
  from same_flags_marked[OF mode_fixup_flags[OF mf] j3 y3] show ?thesis .
qed

lemma update_connector_routing_marks:
  assumes "update_connector_routing drv dev s c = Inr s'"
    "connector_states s ! c = Some k" "crtc k \<noteq> crtc (cur_connector_state dev ! c)"
    "crtc k = Some i \<or> crtc (cur_connector_state dev ! c) = Some i"
  shows "\<exists>y. crtc_states s' ! i = Some y \<and> mode_changed y"
proof -
  from update_connector_routing_steps[OF assms(1,2)] obtain t where
    a: "(if crtc (cur_connector_state dev ! c) \<noteq> crtc k then
                 bind_err
                   (case crtc (cur_connector_state dev ! c) of
                      None \<Rightarrow> Inr s
                    | Some idx \<Rightarrow> set_mode_changed idx s)
                   (\<lambda>state. case crtc k of
                      None \<Rightarrow> Inr state
                    | Some idx \<Rightarrow> set_mode_changed idx state)
               else Inr s) = Inr t"
    and b: "crtc_kept t s'" by blast
  from routing_head_marks[OF a assms(3,4)] obtain y where
    "crtc_states t ! i = Some y" "mode_changed y" "i < length (crtc_states t)" by blast
  then show ?thesis using b crtc_kept_marked by blast
qed

section \<open>Claims about the atomic modeset helper\<close>

text \<open>
  C1. What the code does on \<open>clone_transaction\<close>: both connectors are off in the
  current state, both are routed to crtc 0 in the transaction, and the \<open>best_encoder\<close>
  hook of either returns encoder 0. \<open>update_connector_routing\<close> looks for the holder of
  the encoder in the current state only (\<open>get_current_crtc_for_encoder\<close> reads
  \<open>connector->state\<close>), finds none for either connector and steals nothing, so
  \<open>drm_atomic_helper_check\<close> succeeds and leaves both staged connector states with
  \<open>best_encoder\<close> = encoder 0: two connector states of the transaction hold the same
  encoder.
\<close>

theorem check_accepts_shared_encoder:
  "drm_atomic_helper_check example_driver example_device clone_transaction =
     Inr \<lparr>crtc_states = [Some \<lparr>mode = 1, adjusted_mode = 1, enable = True, mode_changed = True,
                               planes_changed = True, last_vblank_count = 0\<rparr>],
          connector_states = [Some \<lparr>crtc = Some 0, best_encoder = Some 0\<rparr>,
                              Some \<lparr>crtc = Some 0, best_encoder = Some 0\<rparr>],
          plane_states = [Some \<lparr>plane_state_crtc = Some 0, fb = Some 7, fence = None,
                                src_x = 0, src_y = 0\<rparr>]\<rparr>"
  by (simp add: atomic_check_defs example_driver_def example_device_def clone_transaction_def)

text \<open>
  C9. For every driver, device and transaction, \<open>drm_atomic_helper_commit\<close> with
  \<open>async = true\<close> returns \<open>-EBUSY\<close> and leaves the device (current states, legacy
  fields and the record of hardware calls, so no \<open>prepare_fb\<close> was made) and the
  transaction exactly as they were.
\<close>

theorem commit_async_rejected:
  "drm_atomic_helper_commit drv dev state True = (Some EBUSY, dev, Some state)"
  by (simp add: drm_atomic_helper_commit_def)

text \<open>
  C7. When \<open>drm_atomic_helper_check_prepare\<close> returns 0, then for every crtc of the
  transaction whose staged state has \<open>mode_changed\<close> set: every connector that is
  currently on that crtc is in the transaction, and the staged \<open>enable\<close> equals whether
  at least one connector state of the transaction is routed to the crtc. In the loop
  that checks this, a crtc with \<open>mode_changed\<close> whose \<open>enable\<close> differs from that, after
  its connectors were pulled in, makes the check return \<open>-EINVAL\<close>. The crtcs that
  get \<open>mode_changed\<close> include every crtc of the transaction whose staged mode or enable
  flag differs from the current one, and, at the step that routes a connector whose
  staged crtc differs from its current crtc, both of these crtcs. The device's current
  state is only read by the check.
\<close>

theorem check_prepare_pulls_connectors:
  assumes "drm_atomic_helper_check_prepare drv dev state = Inr state'"
    "i < length (crtc_states state')" "crtc_states state' ! i = Some cs" "mode_changed cs"
  shows "(\<forall>c<length (cur_connector_state dev).
            crtc (cur_connector_state dev ! c) = Some i \<longrightarrow>
            c < length (connector_states state') \<and> connector_states state' ! c \<noteq> None)
       \<and> enable cs = (drm_atomic_connectors_for_crtc state' i \<noteq> 0)
       \<and> (\<forall>s x s1. crtc_states s ! i = Some x \<and> mode_changed x \<and>
             drm_atomic_add_affected_connectors drv dev s i = Inr s1 \<and>
             enable x \<noteq> (drm_atomic_connectors_for_crtc s1 i \<noteq> 0) \<longrightarrow>
             check_connectors drv dev i s = Inl EINVAL)
       \<and> (\<forall>j x. j < length (crtc_states state) \<and> crtc_states state ! j = Some x \<and>
             (mode (cur_crtc_state dev ! j) \<noteq> mode x \<or>
              enable (cur_crtc_state dev ! j) \<noteq> enable x) \<longrightarrow>
             (\<exists>y. crtc_states state' ! j = Some y \<and> mode_changed y))
       \<and> (\<forall>s c s1 k j. update_connector_routing drv dev s c = Inr s1 \<and>
             connector_states s ! c = Some k \<and>
             crtc k \<noteq> crtc (cur_connector_state dev ! c) \<and>
             (crtc k = Some j \<or> crtc (cur_connector_state dev ! c) = Some j) \<longrightarrow>
             (\<exists>y. crtc_states s1 ! j = Some y \<and> mode_changed y))"
proof -
  have "crtc_consistent dev state' i" using assms(1,2) by (rule check_prepare_consistent)
  then have a: "connectors_pulled dev state' i"
    and b: "enable cs = (drm_atomic_connectors_for_crtc state' i \<noteq> 0)"
    using assms(3,4) by (simp_all add: crtc_consistent_def)
  have a': "\<forall>c<length (cur_connector_state dev).
            crtc (cur_connector_state dev ! c) = Some i \<longrightarrow>
            c < length (connector_states state') \<and> connector_states state' ! c \<noteq> None"
    using a by (simp add: connectors_pulled_def)
  have c: "\<forall>s x s1. crtc_states s ! i = Some x \<and> mode_changed x \<and>
             drm_atomic_add_affected_connectors drv dev s i = Inr s1 \<and>
             enable x \<noteq> (drm_atomic_connectors_for_crtc s1 i \<noteq> 0) \<longrightarrow>
             check_connectors drv dev i s = Inl EINVAL"
    using check_connectors_mismatch by blast
  have d: "\<forall>j x. j < length (crtc_states state) \<and> crtc_states state ! j = Some x \<and>
             (mode (cur_crtc_state dev ! j) \<noteq> mode x \<or>
              enable (cur_crtc_state dev ! j) \<noteq> enable x) \<longrightarrow>
             (\<exists>y. crtc_states state' ! j = Some y \<and> mode_changed y)"
    using check_prepare_marks[OF assms(1)] by blast
  have e: "\<forall>s c s1 k j. update_connector_routing drv dev s c = Inr s1 \<and>
             connector_states s ! c = Some k \<and>
             crtc k \<noteq> crtc (cur_connector_state dev ! c) \<and>
             (crtc k = Some j \<or> crtc (cur_connector_state dev ! c) = Some j) \<longrightarrow>
             (\<exists>y. crtc_states s1 ! j = Some y \<and> mode_changed y)"
    using update_connector_routing_marks by blast
  show ?thesis using a' b c d e by (intro conjI)
qed

theorem check_prepare_pulls_connectors_witness:
  "drm_atomic_helper_check_prepare example_driver lit_device mode_transaction =
     Inr \<lparr>crtc_states = [Some \<lparr>mode = 2, adjusted_mode = 2, enable = True, mode_changed = True,
                               planes_changed = False, last_vblank_count = 0\<rparr>],
          connector_states = [Some \<lparr>crtc = Some 0, best_encoder = Some 0\<rparr>, None],
          plane_states = [None]\<rparr>
   \<and> crtc (cur_connector_state lit_device ! 0) = Some 0
   \<and> connector_states mode_transaction ! 0 = None
   \<and> drm_atomic_connectors_for_crtc
        \<lparr>crtc_states = [Some \<lparr>mode = 2, adjusted_mode = 2, enable = True, mode_changed = True,
                               planes_changed = False, last_vblank_count = 0\<rparr>],
          connector_states = [Some \<lparr>crtc = Some 0, best_encoder = Some 0\<rparr>, None],
          plane_states = [None]\<rparr> 0 \<noteq> 0"
proof -
  let ?r = "\<lparr>crtc_states = [Some \<lparr>mode = 2, adjusted_mode = 2, enable = True, mode_changed = True,
                               planes_changed = False, last_vblank_count = 0\<rparr>],
          connector_states = [Some \<lparr>crtc = Some 0, best_encoder = Some 0\<rparr>, None],
          plane_states = [None]\<rparr>"
  let ?cs = "\<lparr>mode = 2, adjusted_mode = 2, enable = True, mode_changed = True,
                               planes_changed = False, last_vblank_count = 0\<rparr>"
  have h2: "0 < length (crtc_states ?r)" by simp
  have h3: "crtc_states ?r ! 0 = Some ?cs" by simp
  have h4: "mode_changed ?cs" by simp
  note t = check_prepare_pulls_connectors[OF example_mode_check_prepare h2 h3 h4]
  have a: "drm_atomic_connectors_for_crtc ?r 0 \<noteq> 0"
    using t[THEN conjunct2, THEN conjunct1] by simp
  have b: "crtc (cur_connector_state lit_device ! 0) = Some 0"
    by (simp add: lit_device_def)
  have c: "connector_states mode_transaction ! 0 = None" by (simp add: mode_transaction_def)
  show ?thesis using example_mode_check_prepare b c a by (intro conjI)
qed

end
